theory Spec2Isabelle
  imports Main
begin

section \<open>The Java class GameOfLife\<close>

text \<open>
  The class holds \<open>boolean[][] grid\<close> and \<open>int totalAliveCells\<close>. An array is a list. A
  call returns a value (\<open>Inr\<close>) or ends in a failure (\<open>Inl\<close>): a read outside an array
  throws \<open>ArrayIndexOutOfBoundsException\<close>, a remainder by zero throws
  \<open>ArithmeticException\<close>, and \<open>NoReturn\<close> is a loop that never ends. Java's \<open>int\<close> is 32
  bits wide: sums are wrapped by \<open>i32\<close>, and \<open>%\<close> truncates towards zero (\<open>jrem\<close>).
\<close>

datatype failure = ArrayIndexOutOfBoundsException | ArithmeticException | NoReturn

definition ALIVE :: bool where
  "ALIVE = True"

definition DEAD :: bool where
  "DEAD = False"

definition i32 :: "int \<Rightarrow> int" where
  "i32 x = (x + 2147483648) mod 4294967296 - 2147483648"

definition jrem :: "int \<Rightarrow> int \<Rightarrow> failure + int" where
  "jrem a b = (if b = 0 then Inl ArithmeticException else Inr (sgn a * (\<bar>a\<bar> mod \<bar>b\<bar>)))"

definition jget :: "'a list \<Rightarrow> int \<Rightarrow> failure + 'a" where
  "jget xs i = (if 0 \<le> i \<and> i < int (length xs) then Inr (xs ! nat i)
                else Inl ArrayIndexOutOfBoundsException)"

definition jbind :: "failure + 'a \<Rightarrow> ('a \<Rightarrow> failure + 'b) \<Rightarrow> failure + 'b" where
  "jbind m f = (case m of Inl e \<Rightarrow> Inl e | Inr x \<Rightarrow> f x)"

text \<open>A \<open>for\<close> loop over the values \<open>xs\<close> of its counter, left as soon as the body raises.\<close>

fun jfor :: "'i list \<Rightarrow> ('i \<Rightarrow> 's \<Rightarrow> failure + 's) \<Rightarrow> 's \<Rightarrow> failure + 's" where
  "jfor [] body s = Inr s"
| "jfor (x # xs) body s = (case body x s of Inl e \<Rightarrow> Inl e | Inr s' \<Rightarrow> jfor xs body s')"

record GameOfLife =
  grid :: "bool list list"
  totalAliveCells :: int

text \<open>The default constructor: a 5x5 grid with five alive cells.\<close>

definition GameOfLife_default :: GameOfLife where
  "GameOfLife_default =
     (let g0 = replicate 5 (replicate 5 False);
          g1 = g0[1 := (g0 ! 1)[1 := ALIVE]];
          g2 = g1[1 := (g1 ! 1)[3 := ALIVE]];
          g3 = g2[2 := (g2 ! 2)[2 := ALIVE]];
          g4 = g3[3 := (g3 ! 3)[2 := ALIVE]];
          g5 = g4[3 := (g4 ! 3)[3 := ALIVE]]
      in \<lparr>grid = g5, totalAliveCells = 5\<rparr>)"

definition getGrid :: "GameOfLife \<Rightarrow> bool list list" where
  "getGrid this = grid this"

definition getTotalAliveCells :: "GameOfLife \<Rightarrow> int" where
  "getTotalAliveCells this = totalAliveCells this"

text \<open>
  \<open>numOfAliveNeighbors\<close>: the two loops over \<open>i\<close> and \<open>j\<close> in \<open>-1..1\<close>; \<open>neighborBody\<close> is
  the body of the inner one.
\<close>

definition neighborBody :: "bool list list \<Rightarrow> int \<Rightarrow> int \<Rightarrow> int \<Rightarrow> int \<Rightarrow> int \<Rightarrow> failure + int" where
  "neighborBody g row col i j neighboringCells =
     (if i = 0 \<and> j = 0 then Inr neighboringCells
      else
        jbind (jrem (i32 (i32 (row + i) + int (length g))) (int (length g))) (\<lambda>neighboringRow.
        jbind (jget g row) (\<lambda>thisRow.
        jbind (jrem (i32 (i32 (col + j) + int (length thisRow))) (int (length thisRow))) (\<lambda>neighboringCol.
        jbind (jget g neighboringRow) (\<lambda>r.
        jbind (jget r neighboringCol) (\<lambda>cell.
          Inr (if cell = ALIVE then i32 (neighboringCells + 1) else neighboringCells)))))))"

definition numOfAliveNeighbors :: "bool list list \<Rightarrow> int \<Rightarrow> int \<Rightarrow> failure + int" where
  "numOfAliveNeighbors g row col =
     jfor [-1, 0, 1] (\<lambda>i. jfor [-1, 0, 1] (\<lambda>j. neighborBody g row col i j)) 0"

text \<open>
  \<open>computeNewGrid\<close>: \<open>newGrid\<close> is allocated all false with the sizes \<open>grid.length\<close> and
  \<open>grid[0].length\<close>, then written cell by cell; \<open>cellBody\<close> is the body of the inner loop.
\<close>

definition cellBody :: "bool list list \<Rightarrow> nat \<Rightarrow> nat \<Rightarrow> bool list list \<Rightarrow> failure + bool list list" where
  "cellBody g row col newGrid =
     jbind (numOfAliveNeighbors g (int row) (int col)) (\<lambda>aliveNeighbors.
     jbind (jget g (int row)) (\<lambda>thisRow.
     jbind (jget thisRow (int col)) (\<lambda>cell.
       Inr (newGrid[row := (newGrid ! row)[col :=
              (if cell \<and> aliveNeighbors < 2 then DEAD
               else if cell \<and> aliveNeighbors > 3 then DEAD
               else if \<not> cell \<and> aliveNeighbors = 3 then ALIVE
               else cell)]]))))"

definition computeNewGrid :: "bool list list \<Rightarrow> failure + bool list list" where
  "computeNewGrid g =
     jbind (jget g 0) (\<lambda>row0.
       jfor [0..<length g] (\<lambda>row newGrid.
         jfor [0..<length (newGrid ! row)] (\<lambda>col. cellBody g row col) newGrid)
         (replicate (length g) (replicate (length row0) False)))"

text \<open>\<open>nextGeneration()\<close> assigns the new grid and nothing else.\<close>

definition nextGeneration :: "GameOfLife \<Rightarrow> failure + GameOfLife" where
  "nextGeneration this = jbind (computeNewGrid (grid this)) (\<lambda>g. Inr (this\<lparr>grid := g\<rparr>))"

text \<open>
  \<open>nextGeneration(int n)\<close>: the loop \<open>for (int i = 0; i < n; i++)\<close>. The counter stays
  below \<open>n\<close>, so \<open>i++\<close> never wraps.
\<close>

function nextGenerationLoop :: "int \<Rightarrow> int \<Rightarrow> GameOfLife \<Rightarrow> failure + GameOfLife" where
  "nextGenerationLoop i n this =
     (if i < n
      then jbind (computeNewGrid (grid this)) (\<lambda>g. nextGenerationLoop (i + 1) n (this\<lparr>grid := g\<rparr>))
      else Inr this)"
  by pat_completeness auto
termination
  by (relation "measure (\<lambda>(i, n, this). nat (n - i))") auto

definition nextGeneration_n :: "int \<Rightarrow> GameOfLife \<Rightarrow> failure + GameOfLife" where
  "nextGeneration_n n this = nextGenerationLoop 0 n this"

text \<open>The number of ALIVE cells a grid holds.\<close>

definition countAlive :: "bool list list \<Rightarrow> int" where
  "countAlive g = int (length (filter (\<lambda>cell. cell = ALIVE) (concat g)))"

text \<open>
  Modelled from the spec: the class \<open>WeightedQuickUnionUF\<close> that \<open>numOfCommunities\<close>
  uses is not among the sources. The spec describes it as a disjoint-set structure with
  one element per grid cell, kept as parent and size indices over the flattened cell
  index \<open>row * C + col\<close>, merged by size. \<open>root\<close> follows the parents; the chain from
  an element revisits an element as soon as it is longer than the array, so the budget
  of \<open>length parent\<close> steps runs out exactly when the search would never return.
\<close>

record WeightedQuickUnionUF =
  parent :: "nat list"
  sz :: "nat list"
  ncols :: nat

definition newWeightedQuickUnionUF :: "nat \<Rightarrow> nat \<Rightarrow> WeightedQuickUnionUF" where
  "newWeightedQuickUnionUF r c =
     \<lparr>parent = [0..<r * c], sz = replicate (r * c) 1, ncols = c\<rparr>"

definition index :: "WeightedQuickUnionUF \<Rightarrow> nat \<Rightarrow> nat \<Rightarrow> nat" where
  "index uf row col = row * ncols uf + col"

fun root :: "nat \<Rightarrow> nat list \<Rightarrow> nat \<Rightarrow> failure + nat" where
  "root fuel ps p =
     (if length ps \<le> p then Inl ArrayIndexOutOfBoundsException
      else if ps ! p = p then Inr p
      else (case fuel of 0 \<Rightarrow> Inl NoReturn | Suc k \<Rightarrow> root k ps (ps ! p)))"

definition find_uf :: "WeightedQuickUnionUF \<Rightarrow> nat \<Rightarrow> nat \<Rightarrow> failure + nat" where
  "find_uf uf row col = root (length (parent uf)) (parent uf) (index uf row col)"

definition union_uf ::
  "WeightedQuickUnionUF \<Rightarrow> nat \<Rightarrow> nat \<Rightarrow> nat \<Rightarrow> nat \<Rightarrow> failure + WeightedQuickUnionUF" where
  "union_uf uf row1 col1 row2 col2 =
     jbind (find_uf uf row1 col1) (\<lambda>rootP.
     jbind (find_uf uf row2 col2) (\<lambda>rootQ.
       if rootP = rootQ then Inr uf
       else if sz uf ! rootP < sz uf ! rootQ
       then Inr (uf\<lparr>parent := (parent uf)[rootP := rootQ],
                    sz := (sz uf)[rootQ := sz uf ! rootQ + sz uf ! rootP]\<rparr>)
       else Inr (uf\<lparr>parent := (parent uf)[rootQ := rootP],
                    sz := (sz uf)[rootP := sz uf ! rootP + sz uf ! rootQ]\<rparr>)))"

text \<open>Two cells are joined in a disjoint-set structure when \<open>find\<close> gives them one root.\<close>

definition joined :: "WeightedQuickUnionUF \<Rightarrow> nat \<times> nat \<Rightarrow> nat \<times> nat \<Rightarrow> bool" where
  "joined uf p q = (\<exists>a. find_uf uf (fst p) (snd p) = Inr a \<and> find_uf uf (fst q) (snd q) = Inr a)"

text \<open>
  \<open>numOfCommunities\<close>: \<open>unionBody\<close> is the body of the innermost loop of the first pass,
  \<open>unionNeighbors\<close> its two loops over \<open>i\<close> and \<open>j\<close>, and \<open>unionCell\<close> the body of its loop
  over \<open>col\<close>; \<open>collectCell\<close> is the body of the loop over \<open>col\<close> of the second pass, which
  gathers the distinct roots in \<open>list\<close>, and \<open>collectRoot\<close> what it does at an ALIVE cell.
\<close>

definition unionBody ::
  "bool list list \<Rightarrow> nat \<Rightarrow> nat \<Rightarrow> int \<Rightarrow> int \<Rightarrow> WeightedQuickUnionUF \<Rightarrow> failure + WeightedQuickUnionUF" where
  "unionBody g row col i j uf =
     (if i = 0 \<and> j = 0 then Inr uf
      else
        jbind (jrem (i32 (i32 (int row + i) + int (length g))) (int (length g))) (\<lambda>neighboringRow.
        jbind (jget g 0) (\<lambda>row0.
        jbind (jrem (i32 (i32 (int col + j) + int (length row0))) (int (length row0))) (\<lambda>neighboringCol.
        jbind (jget g neighboringRow) (\<lambda>r.
        jbind (jget r neighboringCol) (\<lambda>cell.
          if cell = ALIVE then union_uf uf row col (nat neighboringRow) (nat neighboringCol)
          else Inr uf))))))"

definition unionNeighbors ::
  "bool list list \<Rightarrow> nat \<Rightarrow> nat \<Rightarrow> WeightedQuickUnionUF \<Rightarrow> failure + WeightedQuickUnionUF" where
  "unionNeighbors g row col uf =
     jfor [-1, 0, 1] (\<lambda>i. jfor [-1, 0, 1] (\<lambda>j. unionBody g row col i j)) uf"

definition unionCell ::
  "bool list list \<Rightarrow> nat \<Rightarrow> nat \<Rightarrow> WeightedQuickUnionUF \<Rightarrow> failure + WeightedQuickUnionUF" where
  "unionCell g row col uf =
     jbind (jget g (int row)) (\<lambda>thisRow.
     jbind (jget thisRow (int col)) (\<lambda>cell.
       if cell = ALIVE then unionNeighbors g row col uf else Inr uf))"

definition collectRoot ::
  "WeightedQuickUnionUF \<Rightarrow> nat \<Rightarrow> nat \<Rightarrow> nat list \<Rightarrow> failure + nat list" where
  "collectRoot uf row col list =
     jbind (find_uf uf row col) (\<lambda>r.
       if r \<in> set list then Inr list
       else jbind (find_uf uf row col) (\<lambda>r'. Inr (list @ [r'])))"

definition collectCell ::
  "bool list list \<Rightarrow> WeightedQuickUnionUF \<Rightarrow> nat \<Rightarrow> nat \<Rightarrow> nat list \<Rightarrow> failure + nat list" where
  "collectCell g uf row col list =
     jbind (jget g (int row)) (\<lambda>thisRow.
     jbind (jget thisRow (int col)) (\<lambda>cell.
       if cell = ALIVE then collectRoot uf row col list else Inr list))"

definition numOfCommunities :: "bool list list \<Rightarrow> failure + int" where
  "numOfCommunities g =
     jbind (jget g 0) (\<lambda>row0.
     jbind (jfor [0..<length g] (\<lambda>row. jfor [0..<length row0] (\<lambda>col. unionCell g row col))
              (newWeightedQuickUnionUF (length g) (length row0))) (\<lambda>weightedUnionFind.
     jbind (jfor [0..<length g] (\<lambda>row.
              jfor [0..<length row0] (\<lambda>col. collectCell g weightedUnionFind row col)) [])
       (\<lambda>list. Inr (int (length list)))))"

section \<open>The React component App\<close>

text \<open>
  The grid is an array of arrays of numbers, \<open>ALIVE = 1\<close> and \<open>DEAD = 0\<close>. A number is an
  integer or \<open>NaN\<close>. Reading an array outside its range gives \<open>undefined\<close> (\<open>None\<close>);
  reading an element of \<open>undefined\<close> throws a TypeError; \<open>%\<close> by zero is \<open>NaN\<close>, and adding
  \<open>undefined\<close> to a number is \<open>NaN\<close>.
\<close>

datatype jsnum = Num int | NaN

datatype jserror = TypeError | SparseRow

definition ALIVE_js :: int where
  "ALIVE_js = 1"

definition DEAD_js :: int where
  "DEAD_js = 0"

definition js_rem :: "int \<Rightarrow> int \<Rightarrow> jsnum" where
  "js_rem a b = (if b = 0 then NaN else Num (sgn a * (\<bar>a\<bar> mod \<bar>b\<bar>)))"

fun js_at :: "'a list \<Rightarrow> jsnum \<Rightarrow> 'a option" where
  "js_at xs NaN = None"
| "js_at xs (Num i) = (if 0 \<le> i \<and> i < int (length xs) then Some (xs ! nat i) else None)"

fun js_plus :: "jsnum \<Rightarrow> int option \<Rightarrow> jsnum" where
  "js_plus (Num a) (Some b) = Num (a + b)"
| "js_plus a b = NaN"

definition dirs :: "(int \<times> int) list" where
  "dirs = [(-1, -1), (-1, 0), (-1, 1), (0, -1), (0, 1), (1, -1), (1, 0), (1, 1)]"

text \<open>\<open>neighbourCount\<close>: the loop \<open>for (const [dr, dc] of dirs)\<close>, with \<open>rows\<close> and \<open>cols\<close> of the component's state.\<close>

fun neighbourLoop ::
  "nat \<Rightarrow> nat \<Rightarrow> nat \<Rightarrow> nat \<Rightarrow> int list list \<Rightarrow> (int \<times> int) list \<Rightarrow> jsnum \<Rightarrow> jserror + jsnum" where
  "neighbourLoop rows cols r c g [] count = Inr count"
| "neighbourLoop rows cols r c g ((dr, dc) # ds) count =
     (let newR = js_rem (int r + dr + int rows) (int rows);
          newC = js_rem (int c + dc + int cols) (int cols)
      in case js_at g newR of
           None \<Rightarrow> Inl TypeError
         | Some row \<Rightarrow> neighbourLoop rows cols r c g ds (js_plus count (js_at row newC)))"

definition neighbourCount :: "nat \<Rightarrow> nat \<Rightarrow> nat \<Rightarrow> nat \<Rightarrow> int list list \<Rightarrow> jserror + jsnum" where
  "neighbourCount rows cols r c g = neighbourLoop rows cols r c g dirs (Num 0)"

text \<open>\<open>Array.prototype.map\<close> with the element and its index, left when the callback throws.\<close>

fun js_map :: "('a \<Rightarrow> nat \<Rightarrow> jserror + 'b) \<Rightarrow> nat \<Rightarrow> 'a list \<Rightarrow> jserror + 'b list" where
  "js_map f i [] = Inr []"
| "js_map f i (x # xs) =
     (case f x i of
        Inl e \<Rightarrow> Inl e
      | Inr y \<Rightarrow> (case js_map f (Suc i) xs of Inl e \<Rightarrow> Inl e | Inr ys \<Rightarrow> Inr (y # ys)))"

definition nextCell :: "nat \<Rightarrow> nat \<Rightarrow> int list list \<Rightarrow> nat \<Rightarrow> int \<Rightarrow> nat \<Rightarrow> jserror + int" where
  "nextCell rows cols current r cell c =
     (case neighbourCount rows cols r c current of
        Inl e \<Rightarrow> Inl e
      | Inr n \<Rightarrow>
          Inr (if cell = ALIVE_js then (if n = Num 2 \<or> n = Num 3 then ALIVE_js else DEAD_js)
               else (if n = Num 3 then ALIVE_js else DEAD_js)))"

definition nextGen :: "nat \<Rightarrow> nat \<Rightarrow> int list list \<Rightarrow> jserror + int list list" where
  "nextGen rows cols current =
     js_map (\<lambda>row r. js_map (nextCell rows cols current r) 0 row) 0 current"

definition buildEmptyGrid :: "nat \<Rightarrow> nat \<Rightarrow> int list list" where
  "buildEmptyGrid r c = replicate r (replicate c 0)"

text \<open>
  The state of the component. \<open>toggleCell\<close> writes one element of a copy of the grid. A
  row that does not exist makes the read \<open>g[r][c]\<close> throw. At a column outside the row
  the read gives \<open>undefined\<close>, so ALIVE is written, and JavaScript extends the row: by
  that one element at the row's end, and with empty slots before it further out, which a
  list of numbers cannot hold (\<open>SparseRow\<close>).
\<close>

record App =
  rows :: nat
  cols :: nat
  grid_js :: "int list list"
  running :: bool
  generation :: int
  speed :: int

definition toggleCell :: "nat \<Rightarrow> nat \<Rightarrow> App \<Rightarrow> jserror + App" where
  "toggleCell r c st =
     (if running st then Inr st
      else (let g = grid_js st in
            if r < length g
            then (if c < length (g ! r)
                  then Inr (st\<lparr>grid_js := g[r := (g ! r)[c := (if g ! r ! c \<noteq> 0 then DEAD_js else ALIVE_js)]]\<rparr>)
                  else if c = length (g ! r)
                  then Inr (st\<lparr>grid_js := g[r := g ! r @ [ALIVE_js]]\<rparr>)
                  else Inl SparseRow)
            else Inl TypeError))"

definition step :: "App \<Rightarrow> jserror + App" where
  "step st =
     (if running st then Inr st
      else (case nextGen (rows st) (cols st) (grid_js st) of
              Inl e \<Rightarrow> Inl e
            | Inr g \<Rightarrow> Inr (st\<lparr>grid_js := g, generation := generation st + 1\<rparr>)))"

section \<open>The words of the specification\<close>

text \<open>
  A grid of \<open>R\<close> rows and \<open>C\<close> columns; the eight toroidal neighbours of a cell, each
  coordinate wrapped modulo the extent; the number of cells among given coordinates that
  satisfy \<open>alive\<close>; and the transition rule in the five cases of the specification.
\<close>

definition rectangular :: "nat \<Rightarrow> nat \<Rightarrow> 'a list list \<Rightarrow> bool" where
  "rectangular R C g = (length g = R \<and> list_all (\<lambda>row. length row = C) g)"

definition wrap :: "nat \<Rightarrow> int \<Rightarrow> nat" where
  "wrap n x = nat (x mod int n)"

definition toroidalNeighbors :: "nat \<Rightarrow> nat \<Rightarrow> nat \<Rightarrow> nat \<Rightarrow> (nat \<times> nat) list" where
  "toroidalNeighbors R C row col =
     map (\<lambda>(i, j). (wrap R (int row + i), wrap C (int col + j)))
       [(-1, -1), (-1, 0), (-1, 1), (0, -1), (0, 1), (1, -1), (1, 0), (1, 1)]"

definition aliveAmong :: "('a \<Rightarrow> bool) \<Rightarrow> 'a list list \<Rightarrow> (nat \<times> nat) list \<Rightarrow> int" where
  "aliveAmong alive g ps = int (length (filter (\<lambda>(r, c). alive (g ! r ! c)) ps))"

text \<open>A grid of the component holds ALIVE and DEAD only; \<open>toNumbers\<close> writes a grid of booleans as such a grid.\<close>

definition binary :: "int list list \<Rightarrow> bool" where
  "binary g = list_all (list_all (\<lambda>cell. cell = ALIVE_js \<or> cell = DEAD_js)) g"

definition toNumbers :: "bool list list \<Rightarrow> int list list" where
  "toNumbers g = map (map (\<lambda>cell. if cell = ALIVE then ALIVE_js else DEAD_js)) g"

text \<open>The coordinates of the ALIVE cells in row-major order, and 8-adjacency on the torus.\<close>

definition aliveCells :: "bool list list \<Rightarrow> (nat \<times> nat) list" where
  "aliveCells g =
     concat (map (\<lambda>r. map (Pair r) (filter (\<lambda>c. g ! r ! c = ALIVE) [0..<length (g ! r)])) [0..<length g])"

definition adjacent :: "nat \<Rightarrow> nat \<Rightarrow> nat \<times> nat \<Rightarrow> nat \<times> nat \<Rightarrow> bool" where
  "adjacent R C p q = (q \<in> set (toroidalNeighbors R C (fst p) (snd p)))"

definition standardRule :: "bool \<Rightarrow> int \<Rightarrow> bool" where
  "standardRule alive n =
     (if alive \<and> n < 2 then False
      else if alive \<and> (n = 2 \<or> n = 3) then True
      else if alive \<and> n > 3 then False
      else if \<not> alive \<and> n = 3 then True
      else False)"

text \<open>
  The grid in which every cell follows \<open>standardRule\<close> on its toroidal neighbour count,
  for cells read by \<open>alive\<close> and written by \<open>state\<close>; for the booleans of the Java class
  and for the numbers of the component.
\<close>

definition standardStep ::
  "('a \<Rightarrow> bool) \<Rightarrow> (bool \<Rightarrow> 'a) \<Rightarrow> nat \<Rightarrow> nat \<Rightarrow> 'a list list \<Rightarrow> 'a list list" where
  "standardStep alive state R C g =
     map (\<lambda>r. map (\<lambda>c. state (standardRule (alive (g ! r ! c))
                           (aliveAmong alive g (toroidalNeighbors R C r c)))) [0..<C]) [0..<R]"

definition isALIVE :: "bool \<Rightarrow> bool" where
  "isALIVE cell = (cell = ALIVE)"

definition stateOf :: "bool \<Rightarrow> bool" where
  "stateOf b = (if b then ALIVE else DEAD)"

definition isALIVE_js :: "int \<Rightarrow> bool" where
  "isALIVE_js cell = (cell = ALIVE_js)"

definition stateOf_js :: "bool \<Rightarrow> int" where
  "stateOf_js b = (if b then ALIVE_js else DEAD_js)"

section \<open>Basic facts about the exception monad\<close>

lemma jbind_Inr [simp]: "jbind (Inr x) f = f x"
  by (simp add: jbind_def)

lemma jbind_Inl [simp]: "jbind (Inl e) f = Inl e"
  by (simp add: jbind_def)

declare nextGenerationLoop.simps [simp del]

section \<open>Wrapped indices and the neighbour counters\<close>

subsection \<open>Index arithmetic and loops of the Java class\<close>

lemma i32_id: "- 2147483648 \<le> x \<Longrightarrow> x < 2147483648 \<Longrightarrow> i32 x = x"
  by (simp add: i32_def)

lemma jrem_nonneg: "0 \<le> a \<Longrightarrow> 0 < b \<Longrightarrow> jrem a b = Inr (a mod b)"
  by (cases "a = 0") (simp_all add: jrem_def)

lemma jget_nth: "i < length xs \<Longrightarrow> jget xs (int i) = Inr (xs ! i)"
  by (simp add: jget_def)

lemma wrap_less: "0 < n \<Longrightarrow> wrap n x < n"
  by (simp add: wrap_def nat_less_iff)

lemma int_wrap: "0 < n \<Longrightarrow> int (wrap n x) = x mod int n"
  by (simp add: wrap_def)

lemma jfor_append: "jfor (xs @ ys) body s = jbind (jfor xs body s) (jfor ys body)"
  by (induction xs arbitrary: s) (simp_all split: sum.splits)

lemma jfor_product:
  "jfor xs (\<lambda>i. jfor ys (body i)) s = jfor (List.product xs ys) (\<lambda>(i, j). body i j) s"
proof (induction xs arbitrary: s)
  case Nil
  show ?case by simp
next
  case (Cons x xs)
  have inner: "jfor (map (Pair x) ys) (\<lambda>(i, j). body i j) t = jfor ys (body x) t" for t
    by (induction ys arbitrary: t) (simp_all split: sum.splits)
  show ?case
    by (simp add: jfor_append inner Cons.IH jbind_def split: sum.splits)
qed

text \<open>
  The wrapped index that Java computes for an offset in -1..1, for an extent of at most
  \<open>2^30\<close>. Only the sum \<open>2^31\<close> wraps there, at the extent \<open>2^30\<close> itself, and its
  remainder is the right index 0 all the same.
\<close>

lemma java_wrap:
  assumes "0 < n" "n \<le> 1073741824" "k < n" "d \<in> {-1, 0, 1}"
  shows "jrem (i32 (i32 (int k + d) + int n)) (int n) = Inr (int (wrap n (int k + d)))"
proof (cases "int k + d + int n = 2147483648")
  case True
  with assms have n: "int n = 1073741824" and kd: "int k + d = 1073741824" by auto
  have "i32 (int k + d) = int k + d" unfolding kd by (simp add: i32_def)
  moreover have "i32 (int k + d + int n) = - 2147483648" unfolding kd n by (simp add: i32_def)
  ultimately show ?thesis
    using assms(1) by (simp add: jrem_def int_wrap) (simp add: n kd)
next
  case False
  from assms have a: "i32 (int k + d) = int k + d"
    by (intro i32_id) auto
  from assms False have b: "i32 (int k + d + int n) = int k + d + int n"
    by (intro i32_id) auto
  from assms have c: "0 \<le> int k + d + int n" by auto
  have "(int k + d + int n) mod int n = (int k + d) mod int n"
    by simp
  with a b c assms(1) show ?thesis
    by (simp add: jrem_nonneg int_wrap)
qed

subsection \<open>numOfAliveNeighbors\<close>

lemma rectangular_nth: "rectangular R C g \<Longrightarrow> r < R \<Longrightarrow> length (g ! r) = C"
  by (simp add: rectangular_def list_all_length)

lemma rectangular_length: "rectangular R C g \<Longrightarrow> length g = R"
  by (simp add: rectangular_def)

lemma neighborBody_eq:
  assumes g: "rectangular R C g" and R: "0 < R" "R \<le> 1073741824" and C: "0 < C" "C \<le> 1073741824"
    and rc: "row < R" "col < C" and ij: "i \<in> {-1, 0, 1}" "j \<in> {-1, 0, 1}"
    and n: "0 \<le> n" "n < 100"
  shows "neighborBody g (int row) (int col) i j n =
         Inr (n + (if (i, j) \<noteq> (0, 0) \<and> g ! wrap R (int row + i) ! wrap C (int col + j) then 1 else 0))"
proof -
  have len: "length g = R" using g by (rule rectangular_length)
  have lenrow: "length (g ! row) = C" using g rc(1) by (rule rectangular_nth)
  have wr: "wrap R (int row + i) < R" using R(1) by (rule wrap_less)
  have wc: "wrap C (int col + j) < C" using C(1) by (rule wrap_less)
  have lenw: "length (g ! wrap R (int row + i)) = C" using g wr by (rule rectangular_nth)
  have inc: "i32 (n + 1) = n + 1" using n by (intro i32_id) auto
  show ?thesis
    using java_wrap [OF R rc(1) ij(1)] java_wrap [OF C rc(2) ij(2)] wr wc rc
    by (simp add: neighborBody_def len lenrow lenw jget_nth inc ALIVE_def)
qed

lemma neighbor_loop:
  assumes g: "rectangular R C g" and R: "0 < R" "R \<le> 1073741824" and C: "0 < C" "C \<le> 1073741824"
    and rc: "row < R" "col < C"
  shows "list_all (\<lambda>(i, j). i \<in> {-1, 0, 1} \<and> j \<in> {-1, 0, 1}) offs \<Longrightarrow> 0 \<le> n \<Longrightarrow>
         n + int (length offs) < 100 \<Longrightarrow>
         jfor offs (\<lambda>(i, j). neighborBody g (int row) (int col) i j) n =
         Inr (n + int (length (filter
                (\<lambda>(i, j). (i, j) \<noteq> (0, 0) \<and> g ! wrap R (int row + i) ! wrap C (int col + j)) offs)))"
proof (induction offs arbitrary: n)
  case Nil
  show ?case by simp
next
  case (Cons o1 offs)
  obtain i j where o1: "o1 = (i, j)" by (cases o1)
  from Cons.prems o1 have ij: "i \<in> {-1, 0, 1}" "j \<in> {-1, 0, 1}" by auto
  from Cons.prems have n: "0 \<le> n" "n < 100" by auto
  let ?b = "(i, j) \<noteq> (0, 0) \<and> g ! wrap R (int row + i) ! wrap C (int col + j)"
  have step: "neighborBody g (int row) (int col) i j n = Inr (n + (if ?b then 1 else 0))"
    using g R C rc ij n by (rule neighborBody_eq)
  have ih: "jfor offs (\<lambda>(i, j). neighborBody g (int row) (int col) i j) m =
        Inr (m + int (length (filter
                (\<lambda>(i, j). (i, j) \<noteq> (0, 0) \<and> g ! wrap R (int row + i) ! wrap C (int col + j)) offs)))"
    if "m = n \<or> m = n + 1" for m
    using Cons.prems that by (intro Cons.IH) auto
  show ?case
  proof (cases ?b)
    case True
    with step ih [of "n + 1"] show ?thesis
      unfolding o1 by simp
  next
    case False
    with step ih [of n] show ?thesis
      unfolding o1 by auto
  qed
qed

lemma numOfAliveNeighbors_eq:
  assumes g: "rectangular R C g" and R: "0 < R" "R \<le> 1073741824" and C: "0 < C" "C \<le> 1073741824"
    and rc: "row < R" "col < C"
  shows "numOfAliveNeighbors g (int row) (int col) =
         Inr (aliveAmong isALIVE g (toroidalNeighbors R C row col))"
proof -
  have "numOfAliveNeighbors g (int row) (int col) =
        jfor (List.product [-1, 0, 1] [-1, 0, 1]) (\<lambda>(i, j). neighborBody g (int row) (int col) i j) 0"
    unfolding numOfAliveNeighbors_def by (rule jfor_product)
  also have "\<dots> = Inr (0 + int (length (filter
                (\<lambda>(i, j). (i, j) \<noteq> (0, 0) \<and> g ! wrap R (int row + i) ! wrap C (int col + j))
                (List.product [-1, 0, 1] [-1, 0, 1]))))"
    using g R C rc by (intro neighbor_loop) simp_all
  also have "\<dots> = Inr (aliveAmong isALIVE g (toroidalNeighbors R C row col))"
    by (simp add: aliveAmong_def toroidalNeighbors_def ALIVE_def isALIVE_def)
  finally show ?thesis .
qed

subsection \<open>neighbourCount\<close>

lemma js_rem_nonneg: "0 \<le> a \<Longrightarrow> 0 < b \<Longrightarrow> js_rem a b = Num (a mod b)"
  by (cases "a = 0") (simp_all add: js_rem_def)

lemma js_wrap:
  assumes "0 < n" "k < n" "d \<in> {-1, 0, 1}"
  shows "js_rem (int k + d + int n) (int n) = Num (int (wrap n (int k + d)))"
proof -
  from assms have "0 \<le> int k + d + int n" by auto
  moreover have "(int k + d + int n) mod int n = (int k + d) mod int n" by simp
  ultimately show ?thesis using assms(1)
    by (simp add: js_rem_nonneg int_wrap)
qed

lemma binary_nth:
  "binary g \<Longrightarrow> r < length g \<Longrightarrow> c < length (g ! r) \<Longrightarrow> g ! r ! c = 1 \<or> g ! r ! c = 0"
  by (simp add: binary_def list_all_length ALIVE_js_def DEAD_js_def)

lemma neighbourLoop_eq:
  assumes g: "rectangular R C g" "binary g" and R: "0 < R" and C: "0 < C" and rc: "r < R" "c < C"
  shows "list_all (\<lambda>(i, j). i \<in> {-1, 0, 1} \<and> j \<in> {-1, 0, 1}) ds \<Longrightarrow>
         neighbourLoop R C r c g ds (Num n) =
         Inr (Num (n + int (length (filter
                (\<lambda>(i, j). g ! wrap R (int r + i) ! wrap C (int c + j) = ALIVE_js) ds))))"
proof (induction ds arbitrary: n)
  case Nil
  show ?case by simp
next
  case (Cons d ds)
  obtain i j where d: "d = (i, j)" by (cases d)
  from Cons.prems d have ij: "i \<in> {-1, 0, 1}" "j \<in> {-1, 0, 1}" by auto
  have len: "length g = R" using g(1) by (rule rectangular_length)
  have wr: "wrap R (int r + i) < R" using R by (rule wrap_less)
  have wc: "wrap C (int c + j) < C" using C by (rule wrap_less)
  have lenw: "length (g ! wrap R (int r + i)) = C" using g(1) wr by (rule rectangular_nth)
  let ?v = "g ! wrap R (int r + i) ! wrap C (int c + j)"
  have v: "?v = 1 \<or> ?v = 0"
    using g(2) wr wc len lenw by (intro binary_nth) simp_all
  have ih: "neighbourLoop R C r c g ds (Num m) =
        Inr (Num (m + int (length (filter
                (\<lambda>(i, j). g ! wrap R (int r + i) ! wrap C (int c + j) = ALIVE_js) ds))))" for m
    using Cons.prems by (intro Cons.IH) simp
  show ?case
    using v wr wc
    unfolding d
    by (auto simp add: js_wrap [OF R rc(1) ij(1)] js_wrap [OF C rc(2) ij(2)] len lenw ih ALIVE_js_def)
qed

lemma neighbourCount_eq:
  assumes g: "rectangular R C g" "binary g" and R: "0 < R" and C: "0 < C" and rc: "r < R" "c < C"
  shows "neighbourCount R C r c g =
         Inr (Num (aliveAmong isALIVE_js g (toroidalNeighbors R C r c)))"
proof -
  have "neighbourCount R C r c g =
        Inr (Num (0 + int (length (filter
                (\<lambda>(i, j). g ! wrap R (int r + i) ! wrap C (int c + j) = ALIVE_js) dirs))))"
    unfolding neighbourCount_def using assms by (intro neighbourLoop_eq) (simp_all add: dirs_def)
  also have "\<dots> = Inr (Num (aliveAmong isALIVE_js g (toroidalNeighbors R C r c)))"
    by (simp add: aliveAmong_def toroidalNeighbors_def dirs_def isALIVE_js_def)
  finally show ?thesis .
qed

subsection \<open>The count and the corner\<close>

lemma aliveAmong_bounds:
  "0 \<le> aliveAmong alive g (toroidalNeighbors R C r c) \<and>
   aliveAmong alive g (toroidalNeighbors R C r c) \<le> 8"
proof -
  have "length (filter (\<lambda>(r, c). alive (g ! r ! c)) (toroidalNeighbors R C r c))
        \<le> length (toroidalNeighbors R C r c)"
    by (rule length_filter_le)
  then show ?thesis
    by (simp add: aliveAmong_def toroidalNeighbors_def)
qed

lemma wrap_minus_one: "0 < n \<Longrightarrow> wrap n (- 1) = n - 1"
  by (simp add: wrap_def zmod_minus1 nat_diff_distrib')

lemma corner_neighbors:
  "0 < R \<Longrightarrow> 0 < C \<Longrightarrow>
   {(R - 1, C - 1), (R - 1, 0), (0, C - 1)} \<subseteq> set (toroidalNeighbors R C 0 0)"
  by (simp add: toroidalNeighbors_def wrap_minus_one) (simp add: wrap_def)

text \<open>
  C4. On a grid of \<open>R > 0\<close> rows and \<open>C > 0\<close> columns and at a cell \<open>(row, col)\<close> of it, the
  neighbour counter returns the number of ALIVE cells among the eight toroidal
  neighbours, each coordinate wrapped modulo \<open>R\<close> and \<open>C\<close>: \<open>numOfAliveNeighbors\<close> where the
  32-bit sums of the index arithmetic do no harm (extents of at most \<open>2^30\<close>), \<open>neighbourCount\<close>
  on every grid of ALIVE and DEAD. That number lies in 0..8, and the neighbours of the
  corner \<open>(0, 0)\<close> include \<open>(R-1, C-1)\<close>, \<open>(R-1, 0)\<close> and \<open>(0, C-1)\<close>.
\<close>

theorem neighbor_count_toroidal:
  assumes "0 < R" and "0 < C" and "row < R" and "col < C"
  shows "(rectangular R C g \<and> R \<le> 1073741824 \<and> C \<le> 1073741824 \<longrightarrow>
            numOfAliveNeighbors g (int row) (int col) =
              Inr (aliveAmong isALIVE g (toroidalNeighbors R C row col))) \<and>
         (rectangular R C h \<and> binary h \<longrightarrow>
            neighbourCount R C row col h =
              Inr (Num (aliveAmong isALIVE_js h (toroidalNeighbors R C row col)))) \<and>
         0 \<le> aliveAmong alive k (toroidalNeighbors R C row col) \<and>
         aliveAmong alive k (toroidalNeighbors R C row col) \<le> 8 \<and>
         {(R - 1, C - 1), (R - 1, 0), (0, C - 1)} \<subseteq> set (toroidalNeighbors R C 0 0)"
  using assms numOfAliveNeighbors_eq [of R C g row col] neighbourCount_eq [of R C h row col]
    aliveAmong_bounds [of alive k R C row col] corner_neighbors [of R C]
  by simp

theorem neighbor_count_toroidal_witness:
  "(0::nat) < 3 \<and> (0::nat) < 4 \<and> (0::nat) < 3 \<and> (0::nat) < 4 \<and>
   rectangular 3 4 [[True, False, False, False], [False, False, False, False], [False, False, False, True]] \<and>
   (3::nat) \<le> 1073741824 \<and> (4::nat) \<le> 1073741824 \<and>
   numOfAliveNeighbors [[True, False, False, False], [False, False, False, False], [False, False, False, True]] 0 0 = Inr 1 \<and>
   rectangular 3 4 [[1, 0, 0, 0], [0, 0, 0, 0], [0, 0, 0, 1]] \<and>
   binary [[1, 0, 0, 0], [0, 0, 0, 0], [0, 0, 0, 1]] \<and>
   neighbourCount 3 4 0 0 [[1, 0, 0, 0], [0, 0, 0, 0], [0, 0, 0, 1]] = Inr (Num 1) \<and>
   {(2, 3), (2, 0), (0, 3)} \<subseteq> set (toroidalNeighbors 3 4 0 0)"
  using neighbor_count_toroidal [of 3 4 0 0
      "[[True, False, False, False], [False, False, False, False], [False, False, False, True]]"
      "[[1, 0, 0, 0], [0, 0, 0, 0], [0, 0, 0, 1]]" id "[]"]
  by (simp add: rectangular_def binary_def aliveAmong_def toroidalNeighbors_def wrap_def
      isALIVE_def isALIVE_js_def ALIVE_def ALIVE_js_def DEAD_js_def)

text \<open>
  C4, beyond that range. In a single row of \<open>2^30 + 1\<close> cells the sum for the last cell and
  the offset \<open>-1\<close> is \<open>2^31\<close>; it wraps to \<open>-2^31\<close>, the remainder is negative, and
  \<open>numOfAliveNeighbors\<close> throws where the count would be 0.
\<close>

theorem neighbor_count_beyond:
  "rectangular 1 1073741825 [replicate 1073741825 False] \<and>
   numOfAliveNeighbors [replicate 1073741825 False] 0 1073741824 =
     Inl ArrayIndexOutOfBoundsException"
  by (simp add: rectangular_def numOfAliveNeighbors_def neighborBody_def jrem_def jget_def
      i32_def)

section \<open>The steppers\<close>

subsection \<open>Loops that fill an array\<close>

lemma jfor_fold:
  assumes "I s"
    and "\<And>i t. i \<in> set xs \<Longrightarrow> I t \<Longrightarrow> body i t = Inr (upd i t) \<and> I (upd i t)"
  shows "jfor xs body s = Inr (fold upd xs s) \<and> I (fold upd xs s)"
  using assms
proof (induction xs arbitrary: s)
  case Nil
  then show ?case by simp
next
  case (Cons x xs)
  from Cons.prems have x: "body x s = Inr (upd x s)" "I (upd x s)" by simp_all
  from Cons.prems have "jfor xs body (upd x s) = Inr (fold upd xs (upd x s)) \<and> I (fold upd xs (upd x s))"
    by (intro Cons.IH x) simp_all
  with x show ?case by simp
qed

lemma fold_fill: "n \<le> length xs \<Longrightarrow> fold (\<lambda>i ys. ys[i := f i]) [0..<n] xs = map f [0..<n] @ drop n xs"
proof (induction n)
  case 0
  show ?case by simp
next
  case (Suc n)
  then have "n < length xs" by simp
  then have "(map f [0..<n] @ drop n xs)[n := f n] = map f [0..<n] @ f n # drop (Suc n) xs"
    by (simp add: list_update_append upd_conv_take_nth_drop)
  with Suc show ?case by simp
qed

lemma fold_fill_all: "length xs = n \<Longrightarrow> fold (\<lambda>i ys. ys[i := f i]) [0..<n] xs = map f [0..<n]"
  by (simp add: fold_fill)

lemma fold_row:
  "row < length t \<Longrightarrow>
   fold (\<lambda>col u. u[row := (u ! row)[col := f col]]) cs t = t[row := fold (\<lambda>col r. r[col := f col]) cs (t ! row)]"
  by (induction cs arbitrary: t) simp_all

subsection \<open>computeNewGrid\<close>

lemma javaRule_standard:
  "(if cell \<and> n < 2 then DEAD else if cell \<and> n > 3 then DEAD
    else if \<not> cell \<and> n = 3 then ALIVE else cell) = standardRule cell (n::int)"
  by (auto simp add: standardRule_def ALIVE_def DEAD_def)

lemma cellBody_eq:
  assumes g: "rectangular R C g" and R: "0 < R" "R \<le> 1073741824" and C: "C \<le> 1073741824"
    and rc: "row < R" "col < C"
  shows "cellBody g row col newGrid =
         Inr (newGrid[row := (newGrid ! row)[col := stateOf (standardRule (isALIVE (g ! row ! col))
                (aliveAmong isALIVE g (toroidalNeighbors R C row col)))]])"
proof -
  from rc have C0: "0 < C" by simp
  have len: "length g = R" using g by (rule rectangular_length)
  have lenrow: "length (g ! row) = C" using g rc(1) by (rule rectangular_nth)
  show ?thesis
    unfolding cellBody_def numOfAliveNeighbors_eq [OF g R C0 C rc] javaRule_standard
    using rc by (simp add: jget_nth len lenrow stateOf_def isALIVE_def ALIVE_def DEAD_def)
qed

lemma computeNewGrid_eq:
  assumes g: "rectangular R C g" and R: "0 < R" "R \<le> 1073741824" and C: "C \<le> 1073741824"
  shows "computeNewGrid g = Inr (standardStep isALIVE stateOf R C g)"
proof -
  let ?h = "\<lambda>r c. stateOf (standardRule (isALIVE (g ! r ! c)) (aliveAmong isALIVE g (toroidalNeighbors R C r c)))"
  let ?I = "\<lambda>t::bool list list. rectangular R C t"
  let ?t0 = "replicate R (replicate C False)"
  have len: "length g = R" using g by (rule rectangular_length)
  have row0: "jget g 0 = Inr (g ! 0)" using jget_nth [of 0 g] R(1) len by simp
  have len0: "length (g ! 0) = C" using g R(1) by (rule rectangular_nth)
  have I0: "?I ?t0" by (simp add: rectangular_def list_all_length)
  have inner: "jfor [0..<length (t ! row)] (cellBody g row) t = Inr (t[row := map (?h row) [0..<C]])
               \<and> ?I (t[row := map (?h row) [0..<C]])"
    if "row \<in> set [0..<R]" "?I t" for row t
  proof -
    from that have row: "row < R" by simp
    have lt: "length t = R" using that(2) by (rule rectangular_length)
    have lr: "length (t ! row) = C" using that(2) row by (rule rectangular_nth)
    let ?J = "\<lambda>u::bool list list. True"
    have "jfor [0..<C] (cellBody g row) t =
          Inr (fold (\<lambda>col u. u[row := (u ! row)[col := ?h row col]]) [0..<C] t) \<and>
          ?J (fold (\<lambda>col u. u[row := (u ! row)[col := ?h row col]]) [0..<C] t)"
    proof (rule jfor_fold)
      show "?J t" ..
      show "cellBody g row i u = Inr (u[row := (u ! row)[i := ?h row i]]) \<and> True"
        if "i \<in> set [0..<C]" "True" for i u
        using cellBody_eq [OF g R C row, of i u] that by simp
    qed
    moreover have "fold (\<lambda>col u. u[row := (u ! row)[col := ?h row col]]) [0..<C] t =
                   t[row := map (?h row) [0..<C]]"
      using row lt lr by (simp add: fold_row fold_fill_all)
    moreover have "?I (t[row := map (?h row) [0..<C]])"
      using that(2) row by (auto simp add: rectangular_def list_all_length nth_list_update)
    ultimately show ?thesis by (simp add: lr)
  qed
  have "jfor [0..<R] (\<lambda>row newGrid. jfor [0..<length (newGrid ! row)] (cellBody g row) newGrid) ?t0 =
        Inr (fold (\<lambda>row t. t[row := map (?h row) [0..<C]]) [0..<R] ?t0) \<and>
        ?I (fold (\<lambda>row t. t[row := map (?h row) [0..<C]]) [0..<R] ?t0)"
    using I0 inner by (rule jfor_fold)
  moreover have "fold (\<lambda>row t. t[row := map (?h row) [0..<C]]) [0..<R] ?t0 = standardStep isALIVE stateOf R C g"
    by (simp add: fold_fill_all standardStep_def)
  ultimately show ?thesis
    by (simp add: computeNewGrid_def row0 len len0)
qed

subsection \<open>nextGen\<close>

lemma js_map_eq:
  "(\<And>k. k < length xs \<Longrightarrow> f (xs ! k) (i + k) = Inr (h (i + k))) \<Longrightarrow>
   js_map f i xs = Inr (map h [i..<i + length xs])"
proof (induction xs arbitrary: i)
  case Nil
  show ?case by simp
next
  case (Cons x xs)
  from Cons.prems [of 0] have x: "f x i = Inr (h i)" by simp
  have e: "[i..<i + length (x # xs)] = i # [Suc i..<Suc i + length xs]"
    by (simp add: upt_conv_Cons del: upt_Suc)
  have "js_map f (Suc i) xs = Inr (map h [Suc i..<Suc i + length xs])"
  proof (rule Cons.IH)
    fix k assume "k < length xs"
    with Cons.prems [of "Suc k"] show "f (xs ! k) (Suc i + k) = Inr (h (Suc i + k))" by simp
  qed
  with x show ?case unfolding e by simp
qed

lemma nextCell_eq:
  assumes g: "rectangular R C g" "binary g" and rc: "r < R" "c < C"
  shows "nextCell R C g r (g ! r ! c) c =
         Inr (stateOf_js (standardRule (isALIVE_js (g ! r ! c))
                (aliveAmong isALIVE_js g (toroidalNeighbors R C r c))))"
proof -
  from rc have "0 < R" "0 < C" by simp_all
  with g rc have "neighbourCount R C r c g =
        Inr (Num (aliveAmong isALIVE_js g (toroidalNeighbors R C r c)))"
    by (intro neighbourCount_eq)
  then show ?thesis
    by (simp add: nextCell_def stateOf_js_def isALIVE_js_def standardRule_def)
qed

lemma nextGen_eq:
  assumes g: "rectangular R C g" "binary g"
  shows "nextGen R C g = Inr (standardStep isALIVE_js stateOf_js R C g)"
proof -
  let ?h = "\<lambda>r c. stateOf_js (standardRule (isALIVE_js (g ! r ! c))
                (aliveAmong isALIVE_js g (toroidalNeighbors R C r c)))"
  have len: "length g = R" using g(1) by (rule rectangular_length)
  have row: "js_map (nextCell R C g (0 + r)) 0 (g ! r) = Inr (map (?h (0 + r)) [0..<C])"
    if r: "r < length g" for r
  proof -
    from r len have rR: "r < R" by simp
    have lr: "length (g ! r) = C" using g(1) rR by (rule rectangular_nth)
    have "js_map (nextCell R C g r) 0 (g ! r) = Inr (map (?h r) [0..<0 + length (g ! r)])"
    proof (rule js_map_eq)
      fix k assume "k < length (g ! r)"
      with lr have "k < C" by simp
      with nextCell_eq [OF g rR] show "nextCell R C g r (g ! r ! k) (0 + k) = Inr (?h r (0 + k))"
        by simp
    qed
    with lr show ?thesis by simp
  qed
  have "js_map (\<lambda>row r. js_map (nextCell R C g r) 0 row) 0 g =
        Inr (map (\<lambda>r. map (?h r) [0..<C]) [0..<0 + length g])"
    by (rule js_map_eq) (use row in simp)
  then show ?thesis
    by (simp add: nextGen_def standardStep_def len)
qed

subsection \<open>The grid of the standard rule, in booleans and in numbers\<close>

lemma standardStep_nth:
  "r < R \<Longrightarrow> c < C \<Longrightarrow>
   standardStep alive state R C g ! r ! c =
   state (standardRule (alive (g ! r ! c)) (aliveAmong alive g (toroidalNeighbors R C r c)))"
  by (simp add: standardStep_def)

lemma rectangular_standardStep: "rectangular R C (standardStep alive state R C g)"
  by (simp add: rectangular_def standardStep_def list_all_length)

lemma toNumbers_nth:
  "rectangular R C g \<Longrightarrow> r < R \<Longrightarrow> c < C \<Longrightarrow> toNumbers g ! r ! c = stateOf_js (isALIVE (g ! r ! c))"
  by (simp add: toNumbers_def rectangular_def list_all_length stateOf_js_def isALIVE_def)

lemma rectangular_toNumbers: "rectangular R C g \<Longrightarrow> rectangular R C (toNumbers g)"
  by (simp add: rectangular_def toNumbers_def list_all_length)

lemma binary_toNumbers: "binary (toNumbers g)"
  by (simp add: binary_def toNumbers_def list_all_length)

lemma aliveAmong_toNumbers:
  assumes g: "rectangular R C g" and R: "0 < R" and C: "0 < C"
  shows "aliveAmong isALIVE_js (toNumbers g) (toroidalNeighbors R C r c) =
         aliveAmong isALIVE g (toroidalNeighbors R C r c)"
proof -
  have "isALIVE_js (toNumbers g ! a ! b) = isALIVE (g ! a ! b)" if "a < R" "b < C" for a b
    using toNumbers_nth [OF g that]
    by (simp add: stateOf_js_def isALIVE_js_def ALIVE_js_def DEAD_js_def)
  moreover have "\<forall>p \<in> set (toroidalNeighbors R C r c). fst p < R \<and> snd p < C"
    using R C by (simp add: toroidalNeighbors_def wrap_less)
  ultimately have "filter (\<lambda>(a, b). isALIVE_js (toNumbers g ! a ! b)) (toroidalNeighbors R C r c) =
        filter (\<lambda>(a, b). isALIVE (g ! a ! b)) (toroidalNeighbors R C r c)"
    by (intro filter_cong) auto
  then show ?thesis by (simp add: aliveAmong_def)
qed

lemma standardStep_toNumbers:
  assumes g: "rectangular R C g"
  shows "standardStep isALIVE_js stateOf_js R C (toNumbers g) =
         toNumbers (standardStep isALIVE stateOf R C g)"
proof -
  have "stateOf_js (standardRule (isALIVE_js (toNumbers g ! r ! c))
            (aliveAmong isALIVE_js (toNumbers g) (toroidalNeighbors R C r c))) =
        (if stateOf (standardRule (isALIVE (g ! r ! c))
            (aliveAmong isALIVE g (toroidalNeighbors R C r c))) = ALIVE then ALIVE_js else DEAD_js)"
    if "r < R" "c < C" for r c
  proof -
    from that have "0 < R" "0 < C" by simp_all
    with g have "aliveAmong isALIVE_js (toNumbers g) (toroidalNeighbors R C r c) =
         aliveAmong isALIVE g (toroidalNeighbors R C r c)"
      by (rule aliveAmong_toNumbers)
    moreover have "isALIVE_js (toNumbers g ! r ! c) = isALIVE (g ! r ! c)"
      using toNumbers_nth [OF g that]
      by (simp add: stateOf_js_def isALIVE_js_def ALIVE_js_def DEAD_js_def)
    ultimately show ?thesis
      by (simp add: stateOf_js_def stateOf_def ALIVE_def DEAD_def)
  qed
  then show ?thesis
    by (simp add: standardStep_def toNumbers_def)
qed

text \<open>
  C1. The stepper returns a grid of the input's extents whose cell \<open>(row, col)\<close> is
  \<open>standardRule\<close> of the state of that cell in the input and of the neighbour counter's
  value on the input: \<open>computeNewGrid\<close> for extents of at most \<open>2^30\<close>, \<open>nextGen\<close> on every grid
  of ALIVE and DEAD.
\<close>

theorem stepper_follows_standard_rule:
  assumes "row < R" and "col < C"
  shows "(rectangular R C g \<and> R \<le> 1073741824 \<and> C \<le> 1073741824 \<longrightarrow>
            computeNewGrid g = Inr (standardStep isALIVE stateOf R C g) \<and>
            numOfAliveNeighbors g (int row) (int col) =
              Inr (aliveAmong isALIVE g (toroidalNeighbors R C row col))) \<and>
         (rectangular R C h \<and> binary h \<longrightarrow>
            nextGen R C h = Inr (standardStep isALIVE_js stateOf_js R C h) \<and>
            neighbourCount R C row col h =
              Inr (Num (aliveAmong isALIVE_js h (toroidalNeighbors R C row col)))) \<and>
         rectangular R C (standardStep alive state R C k) \<and>
         standardStep alive state R C k ! row ! col =
           state (standardRule (alive (k ! row ! col))
                    (aliveAmong alive k (toroidalNeighbors R C row col)))"
proof -
  from assms have pos: "0 < R" "0 < C" by simp_all
  show ?thesis
    using assms pos computeNewGrid_eq [of R C g] numOfAliveNeighbors_eq [of R C g row col]
      nextGen_eq [of R C h] neighbourCount_eq [of R C h row col]
      standardStep_nth [of row R col C alive state k]
      rectangular_standardStep [of R C alive state k]
    by simp
qed

theorem stepper_follows_standard_rule_witness:
  "(1::nat) < 3 \<and> (2::nat) < 4 \<and>
   rectangular 3 4 [[False, True, False, False], [False, True, False, False], [False, True, False, False]] \<and>
   (3::nat) \<le> 1073741824 \<and> (4::nat) \<le> 1073741824 \<and>
   computeNewGrid [[False, True, False, False], [False, True, False, False], [False, True, False, False]] =
     Inr [[True, True, True, False], [True, True, True, False], [True, True, True, False]] \<and>
   numOfAliveNeighbors [[False, True, False, False], [False, True, False, False], [False, True, False, False]] 1 2 = Inr 3 \<and>
   rectangular 3 4 [[0, 1, 0, 0], [0, 1, 0, 0], [0, 1, 0, 0]] \<and>
   binary [[0, 1, 0, 0], [0, 1, 0, 0], [0, 1, 0, 0]] \<and>
   nextGen 3 4 [[0, 1, 0, 0], [0, 1, 0, 0], [0, 1, 0, 0]] =
     Inr [[1, 1, 1, 0], [1, 1, 1, 0], [1, 1, 1, 0]] \<and>
   neighbourCount 3 4 1 2 [[0, 1, 0, 0], [0, 1, 0, 0], [0, 1, 0, 0]] = Inr (Num 3)"
  using stepper_follows_standard_rule [of 1 3 2 4
      "[[False, True, False, False], [False, True, False, False], [False, True, False, False]]"
      "[[0, 1, 0, 0], [0, 1, 0, 0], [0, 1, 0, 0]]" id id "[]"]
  by (simp add: rectangular_def binary_def aliveAmong_def toroidalNeighbors_def wrap_def
      standardStep_def standardRule_def stateOf_def stateOf_js_def
      isALIVE_def isALIVE_js_def ALIVE_def DEAD_def ALIVE_js_def DEAD_js_def upt_rec)

text \<open>
  C3. On a grid of \<open>R > 0\<close> rows and \<open>C\<close> columns (extents of at most \<open>2^30\<close>) the four-branch
  \<open>computeNewGrid\<close> and the two-branch \<open>nextGen\<close> return the same grid, ALIVE written as
  \<open>true\<close> by the one and as \<open>1\<close> by the other.
\<close>

theorem two_and_four_branch_agree:
  assumes "rectangular R C g" and "0 < R" and "R \<le> 1073741824" and "C \<le> 1073741824"
  shows "computeNewGrid g = Inr (standardStep isALIVE stateOf R C g) \<and>
         nextGen R C (toNumbers g) = Inr (toNumbers (standardStep isALIVE stateOf R C g))"
  using assms computeNewGrid_eq [of R C g]
    nextGen_eq [OF rectangular_toNumbers binary_toNumbers, of R C g]
    standardStep_toNumbers [of R C g]
  by simp

theorem two_and_four_branch_agree_witness:
  "rectangular 3 4 [[False, True, False, False], [False, True, False, False], [False, True, False, False]] \<and>
   (0::nat) < 3 \<and> (3::nat) \<le> 1073741824 \<and> (4::nat) \<le> 1073741824 \<and>
   computeNewGrid [[False, True, False, False], [False, True, False, False], [False, True, False, False]] =
     Inr [[True, True, True, False], [True, True, True, False], [True, True, True, False]] \<and>
   nextGen 3 4 (toNumbers [[False, True, False, False], [False, True, False, False], [False, True, False, False]]) =
     Inr (toNumbers [[True, True, True, False], [True, True, True, False], [True, True, True, False]])"
  using two_and_four_branch_agree [of 3 4
      "[[False, True, False, False], [False, True, False, False], [False, True, False, False]]"]
  by (simp add: rectangular_def aliveAmong_def toroidalNeighbors_def wrap_def
      standardStep_def standardRule_def stateOf_def
      isALIVE_def ALIVE_def DEAD_def upt_rec)

subsection \<open>The empty grid\<close>

lemma buildEmptyGrid_nth: "r < R \<Longrightarrow> c < C \<Longrightarrow> buildEmptyGrid R C ! r ! c = 0"
  by (simp add: buildEmptyGrid_def)

lemma aliveAmong_empty:
  assumes "0 < R" "0 < C"
  shows "aliveAmong isALIVE_js (buildEmptyGrid R C) (toroidalNeighbors R C r c) = 0"
proof -
  have "\<forall>p \<in> set (toroidalNeighbors R C r c). fst p < R \<and> snd p < C"
    using assms by (simp add: toroidalNeighbors_def wrap_less)
  then have "filter (\<lambda>(a, b). isALIVE_js (buildEmptyGrid R C ! a ! b)) (toroidalNeighbors R C r c) = []"
    by (auto simp add: filter_empty_conv buildEmptyGrid_nth isALIVE_js_def ALIVE_js_def)
  then show ?thesis by (simp add: aliveAmong_def)
qed

lemma rectangular_buildEmptyGrid: "rectangular R C (buildEmptyGrid R C)"
  by (simp add: rectangular_def buildEmptyGrid_def list_all_length)

lemma binary_buildEmptyGrid: "binary (buildEmptyGrid R C)"
  by (simp add: binary_def buildEmptyGrid_def list_all_length DEAD_js_def)

lemma standardStep_buildEmptyGrid:
  "standardStep isALIVE_js stateOf_js R C (buildEmptyGrid R C) = buildEmptyGrid R C"
proof -
  have "stateOf_js (standardRule (isALIVE_js (buildEmptyGrid R C ! r ! c))
          (aliveAmong isALIVE_js (buildEmptyGrid R C) (toroidalNeighbors R C r c))) = 0"
    if "r < R" "c < C" for r c
  proof -
    from that have "0 < R" "0 < C" by simp_all
    then show ?thesis
      using that
      by (simp add: aliveAmong_empty buildEmptyGrid_nth standardRule_def stateOf_js_def
          isALIVE_js_def ALIVE_js_def DEAD_js_def)
  qed
  then show ?thesis
    by (simp add: standardStep_def buildEmptyGrid_def list_eq_iff_nth_eq)
qed

text \<open>
  C8. \<open>nextGen\<close> maps the all-DEAD grid of \<open>R\<close> rows and \<open>C\<close> columns to itself, for all
  \<open>R\<close> and \<open>C\<close> (the positive ones among them).
\<close>

theorem empty_grid_stays_empty:
  "nextGen R C (buildEmptyGrid R C) = Inr (buildEmptyGrid R C)"
proof -
  have "nextGen R C (buildEmptyGrid R C) =
        Inr (standardStep isALIVE_js stateOf_js R C (buildEmptyGrid R C))"
    using rectangular_buildEmptyGrid binary_buildEmptyGrid by (rule nextGen_eq)
  then show ?thesis
    by (simp add: standardStep_buildEmptyGrid)
qed

subsection \<open>Beyond the range of the 32-bit sums\<close>

text \<open>
  A loop whose body throws at one of the counter's values, whatever the state, does not
  return. On the all-DEAD row of \<open>2^30 + 1\<close> cells that is the last cell for
  \<open>computeNewGrid\<close>, while \<open>nextGen\<close> has no such limit.
\<close>

lemma jfor_raises:
  "x \<in> set xs \<Longrightarrow> (\<And>t. isl (body x t)) \<Longrightarrow> isl (jfor xs body s)"
proof (induction xs arbitrary: s)
  case Nil
  then show ?case by simp
next
  case (Cons y ys)
  show ?case
  proof (cases "body y s")
    case (Inl e)
    then show ?thesis by simp
  next
    case (Inr s')
    with Cons.prems(2) [of s] have "x \<noteq> y" by auto
    with Cons.prems have "x \<in> set ys" by simp
    then have "isl (jfor ys body s')" using Cons.prems(2) by (rule Cons.IH)
    with Inr show ?thesis by simp
  qed
qed

lemma cellBody_wide:
  "cellBody [replicate 1073741825 False] 0 1073741824 t = Inl ArrayIndexOutOfBoundsException"
  by (simp add: cellBody_def numOfAliveNeighbors_def neighborBody_def jrem_def jget_def i32_def)

lemma computeNewGrid_wide: "isl (computeNewGrid [replicate 1073741825 False])"
proof -
  let ?G = "[replicate 1073741825 False]"
  have "isl (jfor [0..<1073741825] (cellBody ?G 0) ?G)"
    by (rule jfor_raises [of 1073741824]) (simp_all add: cellBody_wide)
  then obtain e where "jfor [0..<1073741825] (cellBody ?G 0) ?G = Inl e"
    by (cases "jfor [0..<1073741825] (cellBody ?G 0) ?G") auto
  then show ?thesis
    by (simp add: computeNewGrid_def jget_def)
qed

lemma nextGen_wide:
  "nextGen 1 1073741825 (toNumbers [replicate 1073741825 False]) =
     Inr (toNumbers [replicate 1073741825 False])"
proof -
  have e: "toNumbers [replicate 1073741825 False] = buildEmptyGrid 1 1073741825"
    by (simp add: toNumbers_def buildEmptyGrid_def ALIVE_def DEAD_js_def)
  have "nextGen 1 1073741825 (buildEmptyGrid 1 1073741825) =
        Inr (standardStep isALIVE_js stateOf_js 1 1073741825 (buildEmptyGrid 1 1073741825))"
    using rectangular_buildEmptyGrid binary_buildEmptyGrid by (rule nextGen_eq)
  then show ?thesis
    unfolding e by (simp add: standardStep_buildEmptyGrid)
qed

text \<open>
  C1, beyond that range. On the all-DEAD grid of one row and \<open>2^30 + 1\<close> columns
  \<open>computeNewGrid\<close> ends in an exception: there is no output grid whose cells could
  follow the rule.
\<close>

theorem computeNewGrid_beyond:
  "rectangular 1 1073741825 [replicate 1073741825 False] \<and>
   isl (computeNewGrid [replicate 1073741825 False])"
  using computeNewGrid_wide by (simp add: rectangular_def)

text \<open>
  C3, beyond that range. On the same grid the four-branch \<open>computeNewGrid\<close> ends in an
  exception while the two-branch \<open>nextGen\<close> returns the all-DEAD grid: the two do not
  produce the same output there.
\<close>

theorem steppers_differ_beyond:
  "rectangular 1 1073741825 [replicate 1073741825 False] \<and>
   isl (computeNewGrid [replicate 1073741825 False]) \<and>
   nextGen 1 1073741825 (toNumbers [replicate 1073741825 False]) =
     Inr (toNumbers [replicate 1073741825 False])"
  using computeNewGrid_wide nextGen_wide by (simp add: rectangular_def)

section \<open>The default seed\<close>

text \<open>
  C5. The default constructor's grid is the 5x5 grid with ALIVE cells at exactly (1,1),
  (1,3), (2,2), (3,2) and (3,3), and after four generations every cell of it is DEAD.
\<close>

theorem default_seed_dies_after_four:
  "grid GameOfLife_default =
     [[False, False, False, False, False],
      [False, True, False, True, False],
      [False, False, True, False, False],
      [False, False, True, True, False],
      [False, False, False, False, False]] \<and>
   jbind (nextGeneration_n 4 GameOfLife_default) (\<lambda>this. Inr (getGrid this)) =
     Inr (replicate 5 (replicate 5 DEAD))"
  by code_simp

section \<open>The alive count\<close>

text \<open>
  C2. The count the accessor reports is not kept by a generation step: on the default
  object, where it is 5 and right, \<open>nextGeneration()\<close> leaves it at 5 although the new
  grid holds 4 ALIVE cells.
\<close>

theorem nextGeneration_stale_count:
  "getTotalAliveCells GameOfLife_default = 5 \<and>
   countAlive (grid GameOfLife_default) = 5 \<and>
   jbind (nextGeneration GameOfLife_default)
     (\<lambda>this. Inr (getTotalAliveCells this, countAlive (grid this))) = Inr (5, 4)"
  by code_simp

section \<open>Stepping by several generations\<close>

lemma nextGenerationLoop_split:
  "i \<le> n \<Longrightarrow> n \<le> n' \<Longrightarrow>
   nextGenerationLoop i n' this = jbind (nextGenerationLoop i n this) (nextGenerationLoop n n')"
proof (induction i n this rule: nextGenerationLoop.induct)
  case (1 i n this)
  show ?case
  proof (cases "i < n")
    case True
    with "1.prems" have lt: "i < n'" by simp
    show ?thesis
    proof (cases "computeNewGrid (grid this)")
      case (Inl e)
      with True lt show ?thesis
        by (simp add: nextGenerationLoop.simps [of i])
    next
      case (Inr g)
      from "1.IH" [OF True, of g] True "1.prems"
      have "nextGenerationLoop (i + 1) n' (this\<lparr>grid := g\<rparr>) =
            jbind (nextGenerationLoop (i + 1) n (this\<lparr>grid := g\<rparr>)) (nextGenerationLoop n n')"
        by simp
      with Inr True lt show ?thesis
        by (simp add: nextGenerationLoop.simps [of i])
    qed
  next
    case False
    with "1.prems" have "i = n" by simp
    then show ?thesis
      by (simp add: nextGenerationLoop.simps [of n n])
  qed
qed

lemma nextGenerationLoop_shift:
  "nextGenerationLoop (i + k) (n + k) this = nextGenerationLoop i n this"
proof (induction i n this rule: nextGenerationLoop.induct)
  case (1 i n this)
  show ?case
  proof (cases "i < n")
    case True
    have "nextGenerationLoop (i + k) (n + k) this =
          jbind (computeNewGrid (grid this))
            (\<lambda>g. nextGenerationLoop (i + k + 1) (n + k) (this\<lparr>grid := g\<rparr>))"
      using True by (simp add: nextGenerationLoop.simps [of "i + k"])
    also have "\<dots> = jbind (computeNewGrid (grid this))
                      (\<lambda>g. nextGenerationLoop (i + 1) n (this\<lparr>grid := g\<rparr>))"
      using "1.IH" [OF True] by (simp add: add.commute add.left_commute)
    also have "\<dots> = nextGenerationLoop i n this"
      using True by (simp add: nextGenerationLoop.simps [of i])
    finally show ?thesis .
  next
    case False
    then show ?thesis
      by (simp add: nextGenerationLoop.simps [of i] nextGenerationLoop.simps [of "i + k"])
  qed
qed

text \<open>
  C6. \<open>nextGeneration(0)\<close> leaves the object as it is, and for \<open>n, m \<ge> 0\<close> stepping by
  \<open>n + m\<close> generations is stepping by \<open>n\<close> and then by \<open>m\<close>; an exception of the first
  part is the exception of the whole.
\<close>

theorem nextGeneration_n_add:
  assumes "0 \<le> n" and "0 \<le> m"
  shows "nextGeneration_n 0 this = Inr this \<and>
         nextGeneration_n (n + m) this = jbind (nextGeneration_n n this) (nextGeneration_n m)"
proof -
  have zero: "nextGeneration_n 0 this = Inr this"
    by (simp add: nextGeneration_n_def nextGenerationLoop.simps [of 0 0])
  have m: "nextGeneration_n m = nextGenerationLoop 0 m"
    by (simp add: fun_eq_iff nextGeneration_n_def)
  have "nextGenerationLoop n (n + m) = nextGenerationLoop 0 m"
    using nextGenerationLoop_shift [of 0 n m] by (simp add: add.commute fun_eq_iff)
  with nextGenerationLoop_split [of 0 n "n + m" this] assms m
  have "nextGeneration_n (n + m) this = jbind (nextGeneration_n n this) (nextGeneration_n m)"
    by (simp add: nextGeneration_n_def)
  with zero show ?thesis by simp
qed

theorem nextGeneration_n_add_witness:
  "(0::int) \<le> 1 \<and> (0::int) \<le> 2 \<and>
   nextGeneration_n 0 GameOfLife_default = Inr GameOfLife_default \<and>
   nextGeneration_n (1 + 2) GameOfLife_default =
     jbind (nextGeneration_n 1 GameOfLife_default) (nextGeneration_n 2)"
  using nextGeneration_n_add [of 1 2 GameOfLife_default] by simp

section \<open>The driver\<close>

text \<open>
  C9. While \<open>running\<close> is set, \<open>toggleCell\<close> and \<open>step\<close> return the state as it is, grid,
  generation counter and running flag included, and throw nothing.
\<close>

theorem running_rejects_edit_and_step:
  assumes "running st"
  shows "toggleCell r c st = Inr st \<and> step st = Inr st"
  using assms by (simp add: toggleCell_def step_def)

theorem running_rejects_edit_and_step_witness:
  "running \<lparr>rows = 2, cols = 2, grid_js = [[0, 1], [0, 0]], running = True, generation = 7, speed = 150\<rparr> \<and>
   toggleCell 0 1 \<lparr>rows = 2, cols = 2, grid_js = [[0, 1], [0, 0]], running = True, generation = 7, speed = 150\<rparr>
     = Inr \<lparr>rows = 2, cols = 2, grid_js = [[0, 1], [0, 0]], running = True, generation = 7, speed = 150\<rparr> \<and>
   step \<lparr>rows = 2, cols = 2, grid_js = [[0, 1], [0, 0]], running = True, generation = 7, speed = 150\<rparr>
     = Inr \<lparr>rows = 2, cols = 2, grid_js = [[0, 1], [0, 0]], running = True, generation = 7, speed = 150\<rparr>"
  using running_rejects_edit_and_step
    [of "\<lparr>rows = 2, cols = 2, grid_js = [[0, 1], [0, 0]], running = True, generation = 7, speed = 150\<rparr>" 0 1]
  by simp

text \<open>
  C10. When the simulation is stopped and \<open>(r, c)\<close> is a cell of the grid, \<open>toggleCell\<close>
  turns ALIVE into DEAD and DEAD into ALIVE at \<open>(r, c)\<close>, keeps every other cell, the
  lengths of the grid and of its rows and the rest of the state, and a second toggle of
  a cell that held ALIVE or DEAD gives the first state back.
\<close>

theorem toggleCell_flips_one_cell:
  assumes "\<not> running st" and "r < length (grid_js st)" and "c < length (grid_js st ! r)"
  shows "\<exists>st'. toggleCell r c st = Inr st' \<and>
           (grid_js st ! r ! c = ALIVE_js \<longrightarrow> grid_js st' ! r ! c = DEAD_js) \<and>
           (grid_js st ! r ! c = DEAD_js \<longrightarrow> grid_js st' ! r ! c = ALIVE_js) \<and>
           (\<forall>i j. (i, j) \<noteq> (r, c) \<longrightarrow> grid_js st' ! i ! j = grid_js st ! i ! j) \<and>
           length (grid_js st') = length (grid_js st) \<and>
           map length (grid_js st') = map length (grid_js st) \<and>
           rows st' = rows st \<and> cols st' = cols st \<and> running st' = running st \<and>
           generation st' = generation st \<and> speed st' = speed st \<and>
           (grid_js st ! r ! c = ALIVE_js \<or> grid_js st ! r ! c = DEAD_js \<longrightarrow>
              toggleCell r c st' = Inr st)"
proof -
  let ?g = "grid_js st"
  let ?v = "if ?g ! r ! c \<noteq> 0 then DEAD_js else ALIVE_js"
  let ?st' = "st\<lparr>grid_js := ?g[r := (?g ! r)[c := ?v]]\<rparr>"
  have t: "toggleCell r c st = Inr ?st'"
    using assms by (simp add: toggleCell_def Let_def)
  have other: "grid_js ?st' ! i ! j = ?g ! i ! j" if "(i, j) \<noteq> (r, c)" for i j
    using that assms(2) by (cases "i = r") auto
  have lens: "map length (grid_js ?st') = map length ?g"
    using assms(2) by (simp add: list_eq_iff_nth_eq nth_list_update)
  have twice: "toggleCell r c ?st' = Inr st"
    if "?g ! r ! c = ALIVE_js \<or> ?g ! r ! c = DEAD_js"
  proof -
    have same: "?g[r := (?g ! r)[c := ?g ! r ! c]] = ?g" by simp
    from that show ?thesis
    proof
      assume a: "?g ! r ! c = ALIVE_js"
      with same have "?g[r := (?g ! r)[c := ALIVE_js]] = ?g" by simp
      with a assms show ?thesis
        by (simp add: toggleCell_def Let_def ALIVE_js_def DEAD_js_def)
    next
      assume d: "?g ! r ! c = DEAD_js"
      with same have "?g[r := (?g ! r)[c := DEAD_js]] = ?g" by simp
      with d assms show ?thesis
        by (simp add: toggleCell_def Let_def ALIVE_js_def DEAD_js_def)
    qed
  qed
  show ?thesis
    using t other lens twice assms
    by (intro exI [of _ ?st']) (auto simp add: ALIVE_js_def DEAD_js_def)
qed

theorem toggleCell_flips_one_cell_witness:
  "\<not> running \<lparr>rows = 2, cols = 2, grid_js = [[0, 1], [0, 0]], running = False, generation = 7, speed = 150\<rparr> \<and>
   (0::nat) < length (grid_js \<lparr>rows = 2, cols = 2, grid_js = [[0, 1], [0, 0]], running = False, generation = 7, speed = 150\<rparr>) \<and>
   toggleCell 0 1 \<lparr>rows = 2, cols = 2, grid_js = [[0, 1], [0, 0]], running = False, generation = 7, speed = 150\<rparr>
     = Inr \<lparr>rows = 2, cols = 2, grid_js = [[0, 0], [0, 0]], running = False, generation = 7, speed = 150\<rparr> \<and>
   toggleCell 0 1 \<lparr>rows = 2, cols = 2, grid_js = [[0, 0], [0, 0]], running = False, generation = 7, speed = 150\<rparr>
     = Inr \<lparr>rows = 2, cols = 2, grid_js = [[0, 1], [0, 0]], running = False, generation = 7, speed = 150\<rparr>"
  using toggleCell_flips_one_cell
    [of "\<lparr>rows = 2, cols = 2, grid_js = [[0, 1], [0, 0]], running = False, generation = 7, speed = 150\<rparr>" 0 1]
  by (simp add: toggleCell_def Let_def ALIVE_js_def DEAD_js_def)

section \<open>The community counter\<close>

subsection \<open>Loops that act at a few elements only\<close>

lemma jfor_filter:
  "(\<And>x t. x \<in> set xs \<Longrightarrow> \<not> P x \<Longrightarrow> body x t = Inr t) \<Longrightarrow>
   jfor xs body s = jfor (filter P xs) body s"
proof (induction xs arbitrary: s)
  case Nil
  show ?case by simp
next
  case (Cons x xs)
  have ih: "jfor xs body t = jfor (filter P xs) body t" for t
    using Cons.prems by (intro Cons.IH) simp_all
  show ?case
  proof (cases "P x")
    case True
    then show ?thesis by (simp add: ih split: sum.splits)
  next
    case False
    with Cons.prems [of x] have "body x s = Inr s" by simp
    with False show ?thesis by (simp add: ih)
  qed
qed

lemma jfor_id: "(\<And>x. x \<in> set xs \<Longrightarrow> body x s = Inr s) \<Longrightarrow> jfor xs body s = Inr s"
  by (induction xs) simp_all

lemma jfor_two_phase:
  assumes fixed: "\<And>x t. x \<in> set xs \<Longrightarrow> K t \<Longrightarrow> body x t = Inr t"
    and move: "\<And>x. x \<in> set xs \<Longrightarrow> body x s = Inr s \<or> (\<exists>t. body x s = Inr t \<and> K t)"
  shows "\<exists>t. jfor xs body s = Inr t \<and> (t = s \<or> K t) \<and>
             ((\<exists>x \<in> set xs. \<exists>u. body x s = Inr u \<and> K u) \<longrightarrow> K t) \<and>
             ((\<forall>x \<in> set xs. body x s = Inr s) \<longrightarrow> t = s)"
  using assms
proof (induction xs)
  case Nil
  show ?case by simp
next
  case (Cons x xs)
  have fixed': "\<And>y t. y \<in> set xs \<Longrightarrow> K t \<Longrightarrow> body y t = Inr t"
    using Cons.prems(1) by simp
  have move': "\<And>y. y \<in> set xs \<Longrightarrow> body y s = Inr s \<or> (\<exists>t. body y s = Inr t \<and> K t)"
    using Cons.prems(2) by simp
  from Cons.IH [OF fixed' move'] obtain t where
    t: "jfor xs body s = Inr t" "t = s \<or> K t"
       "(\<exists>y \<in> set xs. \<exists>u. body y s = Inr u \<and> K u) \<longrightarrow> K t"
       "(\<forall>y \<in> set xs. body y s = Inr s) \<longrightarrow> t = s"
    by blast
  from Cons.prems(2) [of x] consider
    (stay) "body x s = Inr s" "\<not> K s" | (go) u where "body x s = Inr u" "K u"
    by auto
  then show ?case
  proof cases
    case stay
    with t show ?thesis by auto
  next
    case go
    have "jfor xs body u = Inr u"
      using fixed' go(2) by (intro jfor_id) simp
    with go show ?thesis by auto
  qed
qed

subsection \<open>The disjoint-set structure on one or two cells\<close>

declare root.simps [simp del]

lemma root_self: "p < length ps \<Longrightarrow> ps ! p = p \<Longrightarrow> root fuel ps p = Inr p"
  by (simp add: root.simps [of fuel])

lemma root_step:
  "p < length ps \<Longrightarrow> ps ! p \<noteq> p \<Longrightarrow> root (Suc k) ps p = root k ps (ps ! p)"
  by (simp add: root.simps [of "Suc k"])

lemma cell_index_less: "r < R \<Longrightarrow> c < C \<Longrightarrow> r * C + c < R * (C::nat)"
proof -
  assume "r < R" "c < C"
  then have "r * C + c < Suc r * C" "Suc r \<le> R" by simp_all
  moreover from \<open>Suc r \<le> R\<close> have "Suc r * C \<le> R * C" by (rule mult_le_mono1)
  ultimately show ?thesis by linarith
qed

lemma cell_index_inj:
  assumes "c < C" "c' < C" "r * C + c = r' * C + (c'::nat)"
  shows "r = r' \<and> c = c'"
proof -
  have "r = (r * C + c) div C" using assms(1) by simp
  also have "\<dots> = (r' * C + c') div C" by (simp only: assms(3))
  also have "\<dots> = r'" using assms(2) by simp
  finally have "r = r'" .
  with assms(3) show ?thesis by simp
qed

lemma find_new:
  "r < R \<Longrightarrow> c < C \<Longrightarrow> find_uf (newWeightedQuickUnionUF R C) r c = Inr (r * C + c)"
  using cell_index_less [of r R c C]
  by (simp add: find_uf_def newWeightedQuickUnionUF_def index_def root_self)

lemma union_new_same:
  "r < R \<Longrightarrow> c < C \<Longrightarrow>
   union_uf (newWeightedQuickUnionUF R C) r c r c = Inr (newWeightedQuickUnionUF R C)"
  by (simp add: union_uf_def find_new)

lemma joined_sym: "joined uf p q \<Longrightarrow> joined uf q p"
  by (auto simp add: joined_def)

lemma union_new_other:
  assumes p: "fst p < R" "snd p < C" and q: "fst q < R" "snd q < C" and ne: "p \<noteq> q"
  shows "\<exists>t. union_uf (newWeightedQuickUnionUF R C) (fst p) (snd p) (fst q) (snd q) = Inr t \<and>
             joined t p q"
proof -
  let ?n = "R * C"
  let ?a = "fst p * C + snd p"
  let ?b = "fst q * C + snd q"
  let ?u = "newWeightedQuickUnionUF R C"
  let ?ps = "[0..<?n][?b := ?a]"
  let ?t = "?u\<lparr>parent := ?ps, sz := (sz ?u)[?a := sz ?u ! ?a + sz ?u ! ?b]\<rparr>"
  have a: "?a < ?n" using p by (rule cell_index_less)
  have b: "?b < ?n" using q by (rule cell_index_less)
  have ab: "?a \<noteq> ?b"
    using cell_index_inj [OF p(2) q(2), of "fst p" "fst q"] ne by (auto simp add: prod_eq_iff)
  have sizes: "sz ?u ! ?a = 1" "sz ?u ! ?b = 1"
    using a b by (simp_all add: newWeightedQuickUnionUF_def)
  have u: "union_uf ?u (fst p) (snd p) (fst q) (snd q) = Inr ?t"
  proof -
    have "parent ?u = [0..<?n]" by (simp add: newWeightedQuickUnionUF_def)
    with ab sizes p q show ?thesis by (simp add: union_uf_def find_new)
  qed
  have psa: "?ps ! ?a = ?a" using a ab by simp
  have psb: "?ps ! ?b = ?a" using b by simp
  have len: "length ?ps = ?n" by simp
  have cols: "ncols ?t = C" "parent ?t = ?ps"
    by (simp_all add: newWeightedQuickUnionUF_def)
  have ra: "root k ?ps ?a = Inr ?a" for k
    using a psa by (intro root_self) simp_all
  from b obtain k where k: "?n = Suc k" by (cases ?n) simp_all
  have "root ?n ?ps ?b = root k ?ps (?ps ! ?b)"
    unfolding k [symmetric] using b psb ab
    by (subst k, intro root_step) simp_all
  with psb ra have rb: "root ?n ?ps ?b = Inr ?a" by simp
  have "find_uf ?t (fst p) (snd p) = Inr ?a" "find_uf ?t (fst q) (snd q) = Inr ?a"
    using ra [of ?n] rb by (simp_all add: find_uf_def index_def cols)
  then have "joined ?t p q" by (auto simp add: joined_def)
  with u show ?thesis by blast
qed

lemma union_joined:
  assumes "joined t p q" and "x = p \<or> x = q" and "y = p \<or> y = q"
  shows "union_uf t (fst x) (snd x) (fst y) (snd y) = Inr t"
proof -
  from assms(1) obtain a where
    "find_uf t (fst p) (snd p) = Inr a" "find_uf t (fst q) (snd q) = Inr a"
    by (auto simp add: joined_def)
  with assms(2,3) have "find_uf t (fst x) (snd x) = Inr a" "find_uf t (fst y) (snd y) = Inr a"
    by auto
  then show ?thesis by (simp add: union_uf_def)
qed

subsection \<open>Both passes run over the ALIVE cells\<close>

lemma unionBody_eq:
  assumes g: "rectangular R C g" and R: "0 < R" "R \<le> 1073741824" and C: "0 < C" "C \<le> 1073741824"
    and rc: "row < R" "col < C" and ij: "i \<in> {-1, 0, 1}" "j \<in> {-1, 0, 1}"
  shows "unionBody g row col i j uf =
         (if (i, j) = (0, 0) then Inr uf
          else if g ! wrap R (int row + i) ! wrap C (int col + j)
          then union_uf uf row col (wrap R (int row + i)) (wrap C (int col + j))
          else Inr uf)"
proof -
  have len: "length g = R" using g by (rule rectangular_length)
  have len0: "length (g ! 0) = C" using g R(1) by (rule rectangular_nth)
  have row0: "jget g 0 = Inr (g ! 0)" using jget_nth [of 0 g] R(1) len by simp
  have wr: "wrap R (int row + i) < R" using R(1) by (rule wrap_less)
  have wc: "wrap C (int col + j) < C" using C(1) by (rule wrap_less)
  have lenw: "length (g ! wrap R (int row + i)) = C" using g wr by (rule rectangular_nth)
  show ?thesis
    using java_wrap [OF R rc(1) ij(1)] java_wrap [OF C rc(2) ij(2)] wr wc
    by (simp add: unionBody_def len len0 row0 lenw jget_nth ALIVE_def)
qed

lemma aliveCells_filter:
  assumes g: "rectangular R C g"
  shows "aliveCells g = filter (\<lambda>(r, c). g ! r ! c) (List.product [0..<R] [0..<C])"
proof -
  have len: "length g = R" using g by (rule rectangular_length)
  have "map (Pair r) (filter (\<lambda>c. g ! r ! c = ALIVE) [0..<length (g ! r)]) =
        filter (\<lambda>(r, c). g ! r ! c) (map (Pair r) [0..<C])" if "r \<in> set [0..<R]" for r
  proof -
    from that have "r < R" by simp
    with g have "length (g ! r) = C" by (rule rectangular_nth)
    then show ?thesis by (simp add: filter_map comp_def ALIVE_def)
  qed
  then have m: "map (\<lambda>r. map (Pair r) (filter (\<lambda>c. g ! r ! c = ALIVE) [0..<length (g ! r)])) [0..<R] =
        map (\<lambda>r. filter (\<lambda>(r, c). g ! r ! c) (map (Pair r) [0..<C])) [0..<R]"
    by (intro map_cong) simp_all
  have "aliveCells g =
        concat (map (\<lambda>r. map (Pair r) (filter (\<lambda>c. g ! r ! c = ALIVE) [0..<length (g ! r)])) [0..<R])"
    by (simp add: aliveCells_def len)
  also have "\<dots> = concat (map (\<lambda>r. filter (\<lambda>(r, c). g ! r ! c) (map (Pair r) [0..<C])) [0..<R])"
    by (simp only: m)
  also have "\<dots> = filter (\<lambda>(r, c). g ! r ! c) (List.product [0..<R] [0..<C])"
    by (simp add: List.product_concat_map filter_concat comp_def)
  finally show ?thesis .
qed

lemma aliveCells_set:
  "rectangular R C g \<Longrightarrow> set (aliveCells g) = {(r, c). r < R \<and> c < C \<and> g ! r ! c}"
  by (auto simp add: aliveCells_filter)

lemma aliveCells_distinct: "rectangular R C g \<Longrightarrow> distinct (aliveCells g)"
  by (simp add: aliveCells_filter distinct_product)

lemma jfor_cong:
  "(\<And>x t. x \<in> set xs \<Longrightarrow> f x t = h x t) \<Longrightarrow> jfor xs f s = jfor xs h s"
  by (induction xs arbitrary: s) (simp_all split: sum.splits)

lemma unionCell_eq:
  assumes g: "rectangular R C g" and rc: "row < R" "col < C"
  shows "unionCell g row col uf = (if g ! row ! col then unionNeighbors g row col uf else Inr uf)"
proof -
  have len: "length g = R" using g by (rule rectangular_length)
  have lenrow: "length (g ! row) = C" using g rc(1) by (rule rectangular_nth)
  show ?thesis using rc by (simp add: unionCell_def jget_nth len lenrow ALIVE_def)
qed

lemma collectCell_eq:
  assumes g: "rectangular R C g" and rc: "row < R" "col < C"
  shows "collectCell g uf row col list = (if g ! row ! col then collectRoot uf row col list else Inr list)"
proof -
  have len: "length g = R" using g by (rule rectangular_length)
  have lenrow: "length (g ! row) = C" using g rc(1) by (rule rectangular_nth)
  show ?thesis using rc by (simp add: collectCell_def jget_nth len lenrow ALIVE_def)
qed

lemma over_alive_cells:
  assumes g: "rectangular R C g"
    and cell: "\<And>row col t. row < R \<Longrightarrow> col < C \<Longrightarrow>
                 body row col t = (if g ! row ! col then act row col t else Inr t)"
  shows "jfor [0..<R] (\<lambda>row. jfor [0..<C] (\<lambda>col. body row col)) s =
         jfor (aliveCells g) (\<lambda>(row, col). act row col) s"
proof -
  let ?cells = "List.product [0..<R] [0..<C]"
  let ?P = "\<lambda>(r, c). g ! r ! c"
  have "jfor [0..<R] (\<lambda>row. jfor [0..<C] (\<lambda>col. body row col)) s =
        jfor ?cells (\<lambda>(row, col). body row col) s"
    by (rule jfor_product)
  also have "\<dots> = jfor (filter ?P ?cells) (\<lambda>(row, col). body row col) s"
    by (rule jfor_filter) (auto simp add: cell)
  also have "\<dots> = jfor (filter ?P ?cells) (\<lambda>(row, col). act row col) s"
    by (rule jfor_cong) (auto simp add: cell)
  finally show ?thesis by (simp add: aliveCells_filter [OF g])
qed

lemma numOfCommunities_eq:
  assumes g: "rectangular R C g" and R: "0 < R"
  shows "numOfCommunities g =
         jbind (jfor (aliveCells g) (\<lambda>(row, col). unionNeighbors g row col)
                  (newWeightedQuickUnionUF R C)) (\<lambda>uf.
         jbind (jfor (aliveCells g) (\<lambda>(row, col). collectRoot uf row col) [])
           (\<lambda>list. Inr (int (length list))))"
proof -
  have len: "length g = R" using g by (rule rectangular_length)
  have len0: "length (g ! 0) = C" using g R by (rule rectangular_nth)
  have row0: "jget g 0 = Inr (g ! 0)" using jget_nth [of 0 g] R len by simp
  have one: "jfor [0..<R] (\<lambda>row. jfor [0..<C] (\<lambda>col. unionCell g row col)) s =
        jfor (aliveCells g) (\<lambda>(row, col). unionNeighbors g row col) s" for s
    using g by (rule over_alive_cells) (rule unionCell_eq [OF g])
  have two: "jfor [0..<R] (\<lambda>row. jfor [0..<C] (\<lambda>col. collectCell g uf row col)) s =
        jfor (aliveCells g) (\<lambda>(row, col). collectRoot uf row col) s" for s uf
    using g by (rule over_alive_cells) (rule collectCell_eq [OF g])
  show ?thesis
    by (simp add: numOfCommunities_def row0 len len0 one two)
qed

subsection \<open>The unions around one ALIVE cell\<close>

lemma unionNeighbors_eq:
  assumes g: "rectangular R C g" and R: "0 < R" "R \<le> 1073741824" and C: "0 < C" "C \<le> 1073741824"
    and rc: "row < R" "col < C"
  shows "unionNeighbors g row col t =
         jfor (List.product [-1, 0, 1] [-1, 0, 1])
           (\<lambda>(i, j) uf. if (i, j) = (0, 0) then Inr uf
              else if g ! wrap R (int row + i) ! wrap C (int col + j)
              then union_uf uf row col (wrap R (int row + i)) (wrap C (int col + j))
              else Inr uf) t"
proof -
  have "unionNeighbors g row col t =
        jfor (List.product [-1, 0, 1] [-1, 0, 1]) (\<lambda>(i, j). unionBody g row col i j) t"
    unfolding unionNeighbors_def by (rule jfor_product)
  also have "\<dots> = jfor (List.product [-1, 0, 1] [-1, 0, 1])
           (\<lambda>(i, j) uf. if (i, j) = (0, 0) then Inr uf
              else if g ! wrap R (int row + i) ! wrap C (int col + j)
              then union_uf uf row col (wrap R (int row + i)) (wrap C (int col + j))
              else Inr uf) t"
  proof (rule jfor_cong)
    fix x :: "int \<times> int" and u
    assume x: "x \<in> set (List.product [-1, 0, 1] [-1, 0, 1])"
    obtain i j where ij: "x = (i, j)" by (cases x)
    with x have "i \<in> {-1, 0, 1}" "j \<in> {-1, 0, 1}" by auto
    with unionBody_eq [OF g R C rc, of i j u] ij
    show "(case x of (i, j) \<Rightarrow> unionBody g row col i j) u =
          (case x of (i, j) \<Rightarrow> \<lambda>uf. if (i, j) = (0, 0) then Inr uf
              else if g ! wrap R (int row + i) ! wrap C (int col + j)
              then union_uf uf row col (wrap R (int row + i)) (wrap C (int col + j))
              else Inr uf) u"
      by simp
  qed
  finally show ?thesis .
qed

lemma neighbor_offsets:
  "set (toroidalNeighbors R C row col) =
   (\<lambda>(i, j). (wrap R (int row + i), wrap C (int col + j))) `
     (set (List.product [-1, 0, 1] [-1, 0, 1]) - {(0, 0)})"
proof -
  have "set (List.product [-1, 0, 1] [-1, 0, 1]) - {(0, 0)} =
        set [(-1, -1), (-1, 0), (-1, 1), (0, -1), (0, 1), (1, -1), (1, 0), (1, 1 :: int) :: int \<times> int]"
    by auto
  then show ?thesis
    unfolding toroidalNeighbors_def set_map by simp
qed

lemma unionNeighbors_joined:
  assumes g: "rectangular R C g" and R: "0 < R" "R \<le> 1073741824" and C: "0 < C" "C \<le> 1073741824"
    and A: "set (aliveCells g) \<subseteq> {p, q}" and x: "(row, col) = p \<or> (row, col) = q"
    and rc: "row < R" "col < C" and t: "joined t p q"
  shows "unionNeighbors g row col t = Inr t"
  unfolding unionNeighbors_eq [OF g R C rc]
proof (rule jfor_id)
  fix o1 :: "int \<times> int"
  assume "o1 \<in> set (List.product [-1, 0, 1] [-1, 0, 1])"
  obtain i j where ij: "o1 = (i, j)" by (cases o1)
  let ?y = "(wrap R (int row + i), wrap C (int col + j))"
  have "union_uf t row col (wrap R (int row + i)) (wrap C (int col + j)) = Inr t"
    if "g ! wrap R (int row + i) ! wrap C (int col + j)"
  proof -
    have "?y \<in> set (aliveCells g)"
      using that R(1) C(1) by (simp add: aliveCells_set [OF g] wrap_less)
    with A have "?y = p \<or> ?y = q" by auto
    with union_joined [OF t, of "(row, col)" ?y] x show ?thesis by simp
  qed
  then show "(case o1 of (i, j) \<Rightarrow> \<lambda>uf. if (i, j) = (0, 0) then Inr uf
              else if g ! wrap R (int row + i) ! wrap C (int col + j)
              then union_uf uf row col (wrap R (int row + i)) (wrap C (int col + j))
              else Inr uf) t = Inr t"
    unfolding ij by simp
qed

lemma unionNeighbors_new:
  assumes g: "rectangular R C g" and R: "0 < R" "R \<le> 1073741824" and C: "0 < C" "C \<le> 1073741824"
    and A: "set (aliveCells g) \<subseteq> {p, q}" and x: "(row, col) = p \<or> (row, col) = q"
    and rc: "row < R" "col < C"
  shows "\<exists>t. unionNeighbors g row col (newWeightedQuickUnionUF R C) = Inr t \<and>
           (t = newWeightedQuickUnionUF R C \<or> joined t p q) \<and>
           ((\<exists>y \<in> set (toroidalNeighbors R C row col). y \<noteq> (row, col) \<and> y \<in> set (aliveCells g))
              \<longrightarrow> joined t p q) \<and>
           ((\<forall>y \<in> set (toroidalNeighbors R C row col). y \<in> set (aliveCells g) \<longrightarrow> y = (row, col))
              \<longrightarrow> t = newWeightedQuickUnionUF R C)"
proof -
  let ?u = "newWeightedQuickUnionUF R C"
  let ?nine = "List.product [-1, 0, 1] [-1, 0, 1] :: (int \<times> int) list"
  let ?nb = "\<lambda>(i, j). (wrap R (int row + i), wrap C (int col + j))"
  let ?body = "\<lambda>(i, j) uf. if (i, j) = (0, 0) then Inr uf
              else if g ! wrap R (int row + i) ! wrap C (int col + j)
              then union_uf uf row col (wrap R (int row + i)) (wrap C (int col + j))
              else Inr uf"
  let ?K = "\<lambda>t. joined t p q"
  have alive_iff: "?nb o1 \<in> set (aliveCells g) \<longleftrightarrow> g ! fst (?nb o1) ! snd (?nb o1)" for o1
    using R(1) C(1) by (cases o1) (simp add: aliveCells_set [OF g] wrap_less)
  have skip: "?body o1 t = Inr t" if "o1 = (0, 0) \<or> ?nb o1 \<notin> set (aliveCells g)" for o1 t
    using that alive_iff [of o1] by (cases o1) auto
  have call: "?body o1 t = union_uf t row col (fst (?nb o1)) (snd (?nb o1))"
    if "o1 \<noteq> (0, 0)" "?nb o1 \<in> set (aliveCells g)" for o1 t
    using that alive_iff [of o1] by (cases o1) auto
  have same: "?body o1 ?u = Inr ?u" if "?nb o1 = (row, col)" for o1
  proof (cases "o1 = (0, 0) \<or> ?nb o1 \<notin> set (aliveCells g)")
    case True
    then show ?thesis by (rule skip)
  next
    case False
    with call [of o1 ?u] that union_new_same [OF rc] show ?thesis by simp
  qed
  have other: "\<exists>t. ?body o1 ?u = Inr t \<and> ?K t"
    if o1: "o1 \<noteq> (0, 0)" "?nb o1 \<in> set (aliveCells g)" "?nb o1 \<noteq> (row, col)" for o1
  proof -
    have rng: "fst (?nb o1) < R" "snd (?nb o1) < C"
      using R(1) C(1) by (cases o1, simp add: wrap_less)+
    from union_new_other [of "(row, col)" R C "?nb o1"] rc rng o1(3)
    obtain t where t: "union_uf ?u row col (fst (?nb o1)) (snd (?nb o1)) = Inr t"
      "joined t (row, col) (?nb o1)"
      by auto
    from o1(2) A have "?nb o1 = p \<or> ?nb o1 = q" by auto
    with x o1(3) t(2) have "?K t" by (auto dest: joined_sym)
    with t(1) call [OF o1(1,2), of ?u] show ?thesis by simp
  qed
  have fixed: "?body o1 t = Inr t" if "o1 \<in> set ?nine" "?K t" for o1 t
  proof (cases "o1 = (0, 0) \<or> ?nb o1 \<notin> set (aliveCells g)")
    case True
    then show ?thesis by (rule skip)
  next
    case False
    with A have "?nb o1 = p \<or> ?nb o1 = q" by auto
    with union_joined [OF that(2), of "(row, col)" "?nb o1"] x call [of o1 t] False
    show ?thesis by simp
  qed
  have move: "?body o1 ?u = Inr ?u \<or> (\<exists>t. ?body o1 ?u = Inr t \<and> ?K t)" if "o1 \<in> set ?nine" for o1
  proof (cases "o1 = (0, 0) \<or> ?nb o1 \<notin> set (aliveCells g)")
    case True
    then have "?body o1 ?u = Inr ?u" by (rule skip)
    then show ?thesis ..
  next
    case False
    show ?thesis
    proof (cases "?nb o1 = (row, col)")
      case True
      then have "?body o1 ?u = Inr ?u" by (rule same)
      then show ?thesis ..
    next
      case ne: False
      with False other [of o1] show ?thesis by simp
    qed
  qed
  from jfor_two_phase [of ?nine ?K ?body ?u, OF fixed move]
  obtain t where t: "jfor ?nine ?body ?u = Inr t" "t = ?u \<or> ?K t"
    "(\<exists>o1 \<in> set ?nine. \<exists>w. ?body o1 ?u = Inr w \<and> ?K w) \<longrightarrow> ?K t"
    "(\<forall>o1 \<in> set ?nine. ?body o1 ?u = Inr ?u) \<longrightarrow> t = ?u"
    by blast
  have progress: "?K t"
    if "\<exists>y \<in> set (toroidalNeighbors R C row col). y \<noteq> (row, col) \<and> y \<in> set (aliveCells g)"
  proof -
    from that obtain o1 where o1: "o1 \<in> set ?nine" "o1 \<noteq> (0, 0)"
      "?nb o1 \<noteq> (row, col)" "?nb o1 \<in> set (aliveCells g)"
      unfolding neighbor_offsets by blast
    with other [of o1] have "\<exists>w. ?body o1 ?u = Inr w \<and> ?K w" by simp
    with o1(1) t(3) show ?thesis by blast
  qed
  have stay: "t = ?u"
    if all: "\<forall>y \<in> set (toroidalNeighbors R C row col). y \<in> set (aliveCells g) \<longrightarrow> y = (row, col)"
  proof -
    have "?body o1 ?u = Inr ?u" if o1: "o1 \<in> set ?nine" for o1
    proof (cases "o1 = (0, 0) \<or> ?nb o1 \<notin> set (aliveCells g)")
      case True
      then show ?thesis by (rule skip)
    next
      case False
      with o1 have "?nb o1 \<in> set (toroidalNeighbors R C row col)"
        unfolding neighbor_offsets by blast
      with all False have "?nb o1 = (row, col)" by blast
      then show ?thesis by (rule same)
    qed
    with t(4) show ?thesis by blast
  qed
  from t(1,2) progress stay show ?thesis
    unfolding unionNeighbors_eq [OF g R C rc] by blast
qed

subsection \<open>The number of roots\<close>

lemma collectRoot_first: "find_uf t r c = Inr a \<Longrightarrow> collectRoot t r c [] = Inr [a]"
  by (simp add: collectRoot_def)

lemma collectRoot_second:
  "find_uf t r c = Inr b \<Longrightarrow> collectRoot t r c [a] = Inr (if b = a then [a] else [a, b])"
  by (simp add: collectRoot_def)

lemma communities_none:
  assumes g: "rectangular R C g" and R: "0 < R" and none: "aliveCells g = []"
  shows "numOfCommunities g = Inr 0"
  by (simp add: numOfCommunities_eq [OF g R] none)

lemma communities_one:
  assumes g: "rectangular R C g" and R: "0 < R" "R \<le> 1073741824" and C: "0 < C" "C \<le> 1073741824"
    and one: "aliveCells g = [p]"
  shows "numOfCommunities g = Inr 1"
proof -
  let ?u = "newWeightedQuickUnionUF R C"
  from one have "p \<in> set (aliveCells g)" by simp
  then have rc: "fst p < R" "snd p < C" by (auto simp add: aliveCells_set [OF g])
  from one have A: "set (aliveCells g) \<subseteq> {p, p}" by simp
  from unionNeighbors_new [OF g R C A _ rc] obtain t where
    t: "unionNeighbors g (fst p) (snd p) ?u = Inr t" "t = ?u \<or> joined t p p"
    by auto
  from t(2) find_new [OF rc] obtain a where a: "find_uf t (fst p) (snd p) = Inr a"
    by (auto simp add: joined_def)
  show ?thesis
    by (simp add: numOfCommunities_eq [OF g R(1)] one case_prod_unfold t(1) collectRoot_first [OF a])
qed

lemma communities_two:
  assumes g: "rectangular R C g" and R: "0 < R" "R \<le> 1073741824" and C: "0 < C" "C \<le> 1073741824"
    and two: "aliveCells g = [p, q]"
  shows "numOfCommunities g = Inr (if adjacent R C p q \<or> adjacent R C q p then 1 else 2)"
proof -
  let ?u = "newWeightedQuickUnionUF R C"
  from two have mem: "p \<in> set (aliveCells g)" "q \<in> set (aliveCells g)" by simp_all
  then have p: "fst p < R" "snd p < C" and q: "fst q < R" "snd q < C"
    by (auto simp add: aliveCells_set [OF g])
  from aliveCells_distinct [OF g] two have ne: "p \<noteq> q" by simp
  from two have A: "set (aliveCells g) \<subseteq> {p, q}" by simp
  have only_p: "y = p" if "y \<in> set (toroidalNeighbors R C (fst p) (snd p))"
    "y \<in> set (aliveCells g)" "\<not> adjacent R C p q" for y
    using that two by (auto simp add: adjacent_def)
  have only_q: "y = q" if "y \<in> set (toroidalNeighbors R C (fst q) (snd q))"
    "y \<in> set (aliveCells g)" "\<not> adjacent R C q p" for y
    using that two by (auto simp add: adjacent_def)
  from unionNeighbors_new [OF g R C A _ p] obtain t1 where
    t1: "unionNeighbors g (fst p) (snd p) ?u = Inr t1" "t1 = ?u \<or> joined t1 p q"
      "(\<exists>y \<in> set (toroidalNeighbors R C (fst p) (snd p)). y \<noteq> p \<and> y \<in> set (aliveCells g))
         \<longrightarrow> joined t1 p q"
      "(\<forall>y \<in> set (toroidalNeighbors R C (fst p) (snd p)). y \<in> set (aliveCells g) \<longrightarrow> y = p)
         \<longrightarrow> t1 = ?u"
    by auto
  from unionNeighbors_new [OF g R C A _ q] obtain t2 where
    t2: "unionNeighbors g (fst q) (snd q) ?u = Inr t2" "t2 = ?u \<or> joined t2 p q"
      "(\<exists>y \<in> set (toroidalNeighbors R C (fst q) (snd q)). y \<noteq> q \<and> y \<in> set (aliveCells g))
         \<longrightarrow> joined t2 p q"
      "(\<forall>y \<in> set (toroidalNeighbors R C (fst q) (snd q)). y \<in> set (aliveCells g) \<longrightarrow> y = q)
         \<longrightarrow> t2 = ?u"
    by auto
  have pass2: "jfor [p, q] (\<lambda>(row, col). collectRoot t row col) [] = Inr [a]"
    if "find_uf t (fst p) (snd p) = Inr a" "find_uf t (fst q) (snd q) = Inr a" for t a
    using that by (simp add: case_prod_unfold collectRoot_first collectRoot_second)
  show ?thesis
  proof (cases "adjacent R C p q \<or> adjacent R C q p")
    case True
    have "\<exists>t. jfor [p, q] (\<lambda>(row, col). unionNeighbors g row col) ?u = Inr t \<and> joined t p q"
    proof (cases "joined t1 p q")
      case True
      from unionNeighbors_joined [OF g R C A _ q True]
      have "unionNeighbors g (fst q) (snd q) t1 = Inr t1" by simp
      with t1(1) True show ?thesis by (simp add: case_prod_unfold)
    next
      case False
      with t1(2) have u: "t1 = ?u" by simp
      from False t1(3) mem(2) ne have "\<not> adjacent R C p q"
        by (auto simp add: adjacent_def)
      with True have "adjacent R C q p" by simp
      with mem(1) ne have "joined t2 p q"
        using t2(3) by (auto simp add: adjacent_def)
      with t1(1) t2(1) u show ?thesis by (simp add: case_prod_unfold)
    qed
    then obtain t where t: "jfor [p, q] (\<lambda>(row, col). unionNeighbors g row col) ?u = Inr t"
      "joined t p q" by blast
    from t(2) obtain a where "find_uf t (fst p) (snd p) = Inr a" "find_uf t (fst q) (snd q) = Inr a"
      by (auto simp add: joined_def)
    then have "jfor [p, q] (\<lambda>(row, col). collectRoot t row col) [] = Inr [a]"
      by (rule pass2)
    with t(1) True show ?thesis
      by (simp add: numOfCommunities_eq [OF g R(1)] two)
  next
    case False
    with only_p t1(4) have u1: "t1 = ?u" by blast
    from False only_q t2(4) have u2: "t2 = ?u" by blast
    have idx: "fst p * C + snd p \<noteq> fst q * C + snd q"
      using cell_index_inj [OF p(2) q(2), of "fst p" "fst q"] ne by (auto simp add: prod_eq_iff)
    have "jfor [p, q] (\<lambda>(row, col). collectRoot ?u row col) [] =
          Inr [fst p * C + snd p, fst q * C + snd q]"
      using idx
      by (simp add: case_prod_unfold collectRoot_first [OF find_new [OF p]]
          collectRoot_second [OF find_new [OF q]])
    with t1(1) t2(1) u1 u2 False show ?thesis
      by (simp add: numOfCommunities_eq [OF g R(1)] two case_prod_unfold)
  qed
qed

text \<open>
  C7. On a grid of \<open>R > 0\<close> rows and \<open>C\<close> columns (extents of at most \<open>2^30\<close>)
  \<open>numOfCommunities\<close> returns 0 when no cell is ALIVE, 1 when exactly one cell is, 1 when
  exactly two cells are and they are adjacent on the torus, and 2 when exactly two cells
  are and they are not adjacent.
\<close>

theorem numOfCommunities_small:
  assumes "rectangular R C g" and "0 < R" and "R \<le> 1073741824" and "C \<le> 1073741824"
  shows "(aliveCells g = [] \<longrightarrow> numOfCommunities g = Inr 0) \<and>
         (aliveCells g = [p] \<longrightarrow> numOfCommunities g = Inr 1) \<and>
         (aliveCells g = [p, q] \<and> (adjacent R C p q \<or> adjacent R C q p) \<longrightarrow>
            numOfCommunities g = Inr 1) \<and>
         (aliveCells g = [p, q] \<and> \<not> adjacent R C p q \<and> \<not> adjacent R C q p \<longrightarrow>
            numOfCommunities g = Inr 2)"
proof -
  have pos: "0 < C" if "p \<in> set (aliveCells g)"
    using that by (auto simp add: aliveCells_set [OF assms(1)])
  have one: "numOfCommunities g = Inr 1" if "aliveCells g = [p]"
    using assms pos that by (intro communities_one [of R C g p]) simp_all
  have two: "numOfCommunities g = Inr (if adjacent R C p q \<or> adjacent R C q p then 1 else 2)"
    if "aliveCells g = [p, q]"
    using assms pos that by (intro communities_two [of R C g p q]) simp_all
  show ?thesis
    using assms communities_none [of R C g] one two by simp
qed

theorem numOfCommunities_small_witness:
  "rectangular 3 4 [[False, False, False, False], [False, False, False, False], [False, False, False, False]] \<and>
   rectangular 3 4 [[True, False, False, False], [False, False, False, False], [False, False, False, False]] \<and>
   rectangular 3 4 [[True, False, False, False], [False, False, False, False], [False, False, False, True]] \<and>
   rectangular 3 4 [[True, False, False, False], [False, False, True, False], [False, False, False, False]] \<and>
   (0::nat) < 3 \<and> (3::nat) \<le> 1073741824 \<and> (4::nat) \<le> 1073741824 \<and>
   aliveCells [[False, False, False, False], [False, False, False, False], [False, False, False, False]] = [] \<and>
   numOfCommunities [[False, False, False, False], [False, False, False, False], [False, False, False, False]] = Inr 0 \<and>
   aliveCells [[True, False, False, False], [False, False, False, False], [False, False, False, False]] = [(0, 0)] \<and>
   numOfCommunities [[True, False, False, False], [False, False, False, False], [False, False, False, False]] = Inr 1 \<and>
   aliveCells [[True, False, False, False], [False, False, False, False], [False, False, False, True]] = [(0, 0), (2, 3)] \<and>
   adjacent 3 4 (0, 0) (2, 3) \<and>
   numOfCommunities [[True, False, False, False], [False, False, False, False], [False, False, False, True]] = Inr 1 \<and>
   aliveCells [[True, False, False, False], [False, False, True, False], [False, False, False, False]] = [(0, 0), (1, 2)] \<and>
   \<not> adjacent 3 4 (0, 0) (1, 2) \<and> \<not> adjacent 3 4 (1, 2) (0, 0) \<and>
   numOfCommunities [[True, False, False, False], [False, False, True, False], [False, False, False, False]] = Inr 2"
proof -
  have none: "aliveCells [[False, False, False, False], [False, False, False, False], [False, False, False, False]] = []"
    by code_simp
  have one: "aliveCells [[True, False, False, False], [False, False, False, False], [False, False, False, False]] = [(0, 0)]"
    by code_simp
  have near: "aliveCells [[True, False, False, False], [False, False, False, False], [False, False, False, True]] = [(0, 0), (2, 3)]"
    by code_simp
  have far: "aliveCells [[True, False, False, False], [False, False, True, False], [False, False, False, False]] = [(0, 0), (1, 2)]"
    by code_simp
  show ?thesis
    using
      numOfCommunities_small [of 3 4
        "[[False, False, False, False], [False, False, False, False], [False, False, False, False]]" "(0, 0)" "(0, 0)"]
      numOfCommunities_small [of 3 4
        "[[True, False, False, False], [False, False, False, False], [False, False, False, False]]" "(0, 0)" "(0, 0)"]
      numOfCommunities_small [of 3 4
        "[[True, False, False, False], [False, False, False, False], [False, False, False, True]]" "(0, 0)" "(2, 3)"]
      numOfCommunities_small [of 3 4
        "[[True, False, False, False], [False, False, True, False], [False, False, False, False]]" "(0, 0)" "(1, 2)"]
    by (simp add: none one near far rectangular_def adjacent_def toroidalNeighbors_def wrap_def)
qed

subsection \<open>Beyond the range of the 32-bit sums\<close>

lemma unionCell_wide:
  "unionCell [replicate 1073741824 False @ [True]] 0 1073741824 t =
     Inl ArrayIndexOutOfBoundsException"
  by (simp add: unionCell_def unionNeighbors_def unionBody_def jrem_def jget_def i32_def
      nth_append ALIVE_def)

lemma aliveCells_wide:
  "aliveCells [replicate 1073741824 False @ [True]] = [(0, 1073741824)]"
proof -
  have "[0..<1073741825] = [0..<1073741824] @ [1073741824::nat]"
    using upt_Suc_append [of 0 1073741824] by simp
  moreover have "filter (\<lambda>c. (replicate 1073741824 False @ [True]) ! c) [0..<1073741824] = []"
    by (simp add: filter_empty_conv nth_append)
  ultimately show ?thesis
    by (simp add: aliveCells_def ALIVE_def nth_append)
qed

lemma numOfCommunities_wide: "isl (numOfCommunities [replicate 1073741824 False @ [True]])"
proof -
  let ?G = "[replicate 1073741824 False @ [True]]"
  let ?u = "newWeightedQuickUnionUF 1 1073741825"
  have "isl (jfor [0..<1073741825] (\<lambda>col. unionCell ?G 0 col) ?u)"
    by (rule jfor_raises [of 1073741824]) (simp_all add: unionCell_wide)
  then obtain e where "jfor [0..<1073741825] (\<lambda>col. unionCell ?G 0 col) ?u = Inl e"
    by (cases "jfor [0..<1073741825] (\<lambda>col. unionCell ?G 0 col) ?u") auto
  then show ?thesis
    by (simp add: numOfCommunities_def jget_def)
qed

text \<open>
  C7, beyond that range. On the grid of one row and \<open>2^30 + 1\<close> columns whose only ALIVE
  cell is the last one, the index sum for that cell wraps before any call of the
  disjoint-set structure, and \<open>numOfCommunities\<close> ends in an exception where the count
  would be 1.
\<close>

theorem numOfCommunities_beyond:
  "rectangular 1 1073741825 [replicate 1073741824 False @ [True]] \<and>
   aliveCells [replicate 1073741824 False @ [True]] = [(0, 1073741824)] \<and>
   isl (numOfCommunities [replicate 1073741824 False @ [True]])"
  using aliveCells_wide numOfCommunities_wide by (simp add: rectangular_def)

end
